theory Spec2Isabelle
  imports Complex_Main "HOL-Library.Log_Nat"
begin

section \<open>JavaScript numbers\<close>

text \<open>
  A JavaScript number is an IEEE 754 binary64 value: a finite double, NaN or one of the two
  infinities. A finite double is modelled by the real it denotes; the sign of a zero is
  dropped (the engine never divides by a zero and never inspects the sign). The values the
  code stores in \<open>decisionIndex\<close> and \<open>decisionRecords\<close> are integers, hence \<open>int\<close>
  there.
\<close>

datatype number = Number real | NaN | Infinity | NegInfinity

text \<open>
  Rounding to the nearest integer, a tie going to the even one: the rule by which the
  significand of a binary64 result is chosen.
\<close>

definition rne :: "real \<Rightarrow> int" where
  "rne x =
     (let f = \<lfloor>x\<rfloor>
      in if x - of_int f < 1 / 2 then f
         else if x - of_int f > 1 / 2 then f + 1
         else if even f then f else f + 1)"

text \<open>
  The exponent of the binade that holds \<open>x\<close> (the \<open>e\<close> with \<open>2 powi e \<le> \<bar>x\<bar>\<close> and
  \<open>\<bar>x\<bar> < 2 powi (e + 1)\<close>), but never below -1022, the exponent shared by the
  subnormal numbers and zero.
\<close>

definition expo :: "real \<Rightarrow> int" where
  "expo x = max (bitlen \<lfloor>\<bar>x\<bar> * 2 ^ 1074\<rfloor> - 1075) (- 1022)"

text \<open>
  The double nearest to a real: the multiple of \<open>2 powi (e - 52)\<close> nearest to it, where
  \<open>e\<close> is its exponent; a result of magnitude \<open>2 ^ 1024\<close> or more overflows to an
  infinity.
\<close>

definition round_real :: "real \<Rightarrow> real" where
  "round_real x = 2 powi (expo x - 52) * of_int (rne (x / 2 powi (expo x - 52)))"

definition round_double :: "real \<Rightarrow> number" where
  "round_double x =
     (if \<bar>round_real x\<bar> \<ge> 2 ^ 1024 then (if x < 0 then NegInfinity else Infinity)
      else Number (round_real x))"

definition isFinite :: "number \<Rightarrow> bool" where
  "isFinite x = (case x of Number r \<Rightarrow> True | _ \<Rightarrow> False)"

definition Math_floor :: "number \<Rightarrow> int" where
  "Math_floor x = (case x of Number r \<Rightarrow> \<lfloor>r\<rfloor> | _ \<Rightarrow> 0)"

text \<open>
  The operators \<open>-x\<close>, \<open>+\<close>, \<open>-\<close>, \<open>*\<close>, \<open>/\<close>, \<open>%\<close> and \<open><\<close>, with \<open>Math.min\<close> and
  \<open>Math.max\<close>. On finite operands a sum, difference, product or quotient is the exact
  result rounded; the remainder has the sign of the dividend (the quotient is truncated
  towards zero) and needs no rounding. A comparison with NaN is false.
\<close>

fun num_neg :: "number \<Rightarrow> number" where
  "num_neg (Number x) = Number (- x)"
| "num_neg NaN = NaN"
| "num_neg Infinity = NegInfinity"
| "num_neg NegInfinity = Infinity"

fun num_add :: "number \<Rightarrow> number \<Rightarrow> number" where
  "num_add (Number x) (Number y) = round_double (x + y)"
| "num_add NaN b = NaN"
| "num_add a NaN = NaN"
| "num_add Infinity NegInfinity = NaN"
| "num_add NegInfinity Infinity = NaN"
| "num_add Infinity b = Infinity"
| "num_add a Infinity = Infinity"
| "num_add NegInfinity b = NegInfinity"
| "num_add a NegInfinity = NegInfinity"

definition num_sub :: "number \<Rightarrow> number \<Rightarrow> number" where
  "num_sub a b = num_add a (num_neg b)"

fun num_mul :: "number \<Rightarrow> number \<Rightarrow> number" where
  "num_mul (Number x) (Number y) = round_double (x * y)"
| "num_mul NaN b = NaN"
| "num_mul a NaN = NaN"
| "num_mul (Number x) b = (if x = 0 then NaN else if 0 < x then b else num_neg b)"
| "num_mul a (Number y) = (if y = 0 then NaN else if 0 < y then a else num_neg a)"
| "num_mul Infinity Infinity = Infinity"
| "num_mul NegInfinity NegInfinity = Infinity"
| "num_mul Infinity NegInfinity = NegInfinity"
| "num_mul NegInfinity Infinity = NegInfinity"

text \<open>
  The one division of the engine, \<open>i / (path.length - 1)\<close>, has a divisor of at least 1.
  A zero divisor is read as the positive zero.
\<close>

fun num_div :: "number \<Rightarrow> number \<Rightarrow> number" where
  "num_div (Number x) (Number y) =
     (if y = 0 then (if x = 0 then NaN else if 0 < x then Infinity else NegInfinity)
      else round_double (x / y))"
| "num_div NaN b = NaN"
| "num_div a NaN = NaN"
| "num_div (Number x) b = Number 0"
| "num_div a (Number y) = (if 0 \<le> y then a else num_neg a)"
| "num_div a b = NaN"

definition js_rem :: "real \<Rightarrow> real \<Rightarrow> real" where
  "js_rem a b = a - b * of_int (if a / b < 0 then \<lceil>a / b\<rceil> else \<lfloor>a / b\<rfloor>)"

fun num_rem :: "number \<Rightarrow> number \<Rightarrow> number" where
  "num_rem (Number x) (Number y) = (if y = 0 then NaN else Number (js_rem x y))"
| "num_rem (Number x) NaN = NaN"
| "num_rem (Number x) b = Number x"
| "num_rem a b = NaN"

fun num_less :: "number \<Rightarrow> number \<Rightarrow> bool" where
  "num_less (Number x) (Number y) = (x < y)"
| "num_less NaN b = False"
| "num_less a NaN = False"
| "num_less a NegInfinity = False"
| "num_less Infinity b = False"
| "num_less a b = True"

definition Math_min :: "number \<Rightarrow> number \<Rightarrow> number" where
  "Math_min a b = (if a = NaN \<or> b = NaN then NaN else if num_less b a then b else a)"

definition Math_max :: "number \<Rightarrow> number \<Rightarrow> number" where
  "Math_max a b = (if a = NaN \<or> b = NaN then NaN else if num_less a b then b else a)"

section \<open>Data model (types.ts)\<close>

text \<open>Only the fields that the navigation engine reads are kept.\<close>

record TransitionOption =
  label :: string
  target_id :: string

datatype Transition =
    Linear string
  | Split "TransitionOption list"
  | SelfLoop string

record WheelConfig =
  position_degrees :: "number option"
  phase :: "string option"

record Card =
  card_id :: string
  card_type :: string
  wheel_config :: WheelConfig
  transitions :: "Transition option"
  status :: "string option"

datatype Direction = anticlockwise | clockwise

record WheelArc =
  start_degrees :: number
  end_degrees :: number
  direction :: Direction
  phase_spread_degrees :: number

record GlobalTimer =
  auto_start_on_card :: "string option"

record AlgorithmMeta =
  wheel_arc :: "WheelArc option"
  global_timer :: "GlobalTimer option"

record Algorithm =
  algorithm_meta :: "AlgorithmMeta option"
  deck :: "Card list"

datatype WheelMode = COVER | LINEAR | DECISION | LOOP | TERMINAL

record Anchor =
  anchor_id :: string
  anchor_angle :: number

record WheelState =
  mode :: WheelMode
  angle :: number
  visualAngle :: "number option"
  dragOrigin :: "number option"
  navConsumed :: bool

record DecisionTrailEntry =
  trail_card_id :: string
  option_index :: int
  option_label :: string
  trail_target_id :: "string option"
  interaction :: string
  trail_source :: string
  timestamp :: string

text \<open>
  \<open>currentId\<close> is declared a string, but \<open>setCurrentCardForAutomation\<close> stores \<open>card.id\<close>
  of whatever the deck object answered, which can be undefined; \<open>None\<close> is that value.
  The entries of \<open>history\<close> are former values of \<open>currentId\<close>.
\<close>

record AppState =
  currentId :: "string option"
  history :: "string option list"
  decisionIndex :: int
  decisionRecords :: "string \<rightharpoonup> int"
  decisionTrail :: "DecisionTrailEntry list"
  decisionTapped :: bool
  carouselIndex :: int
  timerSeconds :: nat
  timerRunning :: bool
  timerInterval :: bool
  checklistState :: "string \<rightharpoonup> bool"
  anchors :: "Anchor list"
  anchorIndex :: int
  wheel :: WheelState

record AdvanceOptions =
  source :: "string option"
  splitConfirmed :: "bool option"

text \<open>
  The globals and the ambient values the code reads: \<open>RUNTIME_ALGORITHM\<close>, whether the
  DOM holds the knob element, and the ISO timestamp \<open>new Date()\<close> yields at the call.
\<close>

record Env =
  RUNTIME_ALGORITHM :: Algorithm
  dom_knob :: bool
  clock :: string

section \<open>State store (state/store.ts)\<close>

text \<open>
  \<open>DECK\<close> is a plain object, created by \<open>{}\<close> and read as \<open>DECK[key]\<close>. Its own
  properties are the cards, stored under their ids by \<open>rebuildDeckMap\<close>. A key that is
  no card id is looked up in \<open>Object.prototype\<close>, which answers a function (for
  \<open>__proto__\<close> the prototype object itself) at each of its twelve property names: a truthy
  value on which \<open>id\<close>, \<open>type\<close>, \<open>status\<close>, \<open>transitions\<close> and \<open>wheel_config\<close> are all
  undefined. \<open>InheritedValue\<close> stands for such a value. A key used as a property name is a
  string; undefined is read as the text \<open>undefined\<close>.

  Cards are taken to have ids other than \<open>__proto__\<close>: an assignment to that key does not
  add a property but replaces the prototype of the object.
\<close>

datatype DeckValue = CardValue Card | InheritedValue

definition Object_prototype_keys :: "string list" where
  "Object_prototype_keys =
     [''constructor'', ''__defineGetter__'', ''__defineSetter__'', ''hasOwnProperty'',
      ''__lookupGetter__'', ''__lookupSetter__'', ''isPrototypeOf'', ''propertyIsEnumerable'',
      ''toString'', ''valueOf'', ''__proto__'', ''toLocaleString'']"

definition propertyKey :: "string option \<Rightarrow> string" where
  "propertyKey k = (case k of None \<Rightarrow> ''undefined'' | Some x \<Rightarrow> x)"

definition value_id :: "DeckValue \<Rightarrow> string option" where
  "value_id v = (case v of CardValue crd \<Rightarrow> Some (card_id crd) | InheritedValue \<Rightarrow> None)"

definition rebuildDeckMap :: "Card list \<Rightarrow> (string \<rightharpoonup> Card)" where
  "rebuildDeckMap cards = foldl (\<lambda>m c. m(card_id c \<mapsto> c)) Map.empty cards"

definition DECK :: "Env \<Rightarrow> (string \<rightharpoonup> DeckValue)" where
  "DECK env k =
     (case rebuildDeckMap (deck (RUNTIME_ALGORITHM env)) k of
        Some crd \<Rightarrow> Some (CardValue crd)
      | None \<Rightarrow> if k \<in> set Object_prototype_keys then Some InheritedValue else None)"

section \<open>Decision helpers (state/decisions.ts)\<close>

definition isSplitDecisionCard :: "DeckValue option \<Rightarrow> bool" where
  "isSplitDecisionCard crd =
     (case crd of
        None \<Rightarrow> False
      | Some InheritedValue \<Rightarrow> False
      | Some (CardValue c) \<Rightarrow>
          (case transitions c of
             Some (Split opts) \<Rightarrow> length opts > 0
           | _ \<Rightarrow> False))"

definition normalizeDecisionIndexForCard :: "DeckValue option \<Rightarrow> number \<Rightarrow> int" where
  "normalizeDecisionIndexForCard crd requestedIndex =
     (case crd of
        None \<Rightarrow> 0
      | Some InheritedValue \<Rightarrow> 0
      | Some (CardValue c) \<Rightarrow>
          (case transitions c of
             Some (Split opts) \<Rightarrow>
               if length opts = 0 then 0
               else
                 (let v = (if isFinite requestedIndex then Math_floor requestedIndex else 0)
                  in max 0 (min (int (length opts) - 1) v))
           | _ \<Rightarrow> 0))"

definition rememberedDecisionIndexForCard :: "AppState \<Rightarrow> DeckValue \<Rightarrow> int" where
  "rememberedDecisionIndexForCard s crd =
     (if \<not> isSplitDecisionCard (Some crd) then 0
      else
        (let remembered =
               (case decisionRecords s (propertyKey (value_id crd)) of
                  Some r \<Rightarrow> r
                | None \<Rightarrow> decisionIndex s)
         in normalizeDecisionIndexForCard (Some crd) (Number (of_int remembered))))"

section \<open>Algorithm loader (algorithms/loader.ts)\<close>

definition DEFAULT_WHEEL_ARC :: WheelArc where
  "DEFAULT_WHEEL_ARC =
     \<lparr>start_degrees = Number 330, end_degrees = Number 30, direction = anticlockwise,
      phase_spread_degrees = Number 4\<rparr>"

definition normalizeDegrees :: "number \<Rightarrow> number" where
  "normalizeDegrees deg =
     (if \<not> isFinite deg then Number 0
      else
        (let md = num_rem deg (Number 360)
         in if num_less md (Number 0) then num_add md (Number 360) else md))"

text \<open>
  The fields of the raw arc hold what \<open>Number(...)\<close> makes of the raw value, NaN for a
  field that is missing.
\<close>

definition normalizeWheelArc :: "AlgorithmMeta option \<Rightarrow> WheelArc" where
  "normalizeWheelArc rawMeta =
     (case (case rawMeta of None \<Rightarrow> None | Some m \<Rightarrow> wheel_arc m) of
        None \<Rightarrow> DEFAULT_WHEEL_ARC
      | Some raw \<Rightarrow>
          \<lparr>start_degrees =
             (if isFinite (start_degrees raw) then normalizeDegrees (start_degrees raw)
              else start_degrees DEFAULT_WHEEL_ARC),
           end_degrees =
             (if isFinite (end_degrees raw) then normalizeDegrees (end_degrees raw)
              else end_degrees DEFAULT_WHEEL_ARC),
           direction = direction raw,
           phase_spread_degrees =
             (if isFinite (phase_spread_degrees raw)
              then Math_max (Number 0) (phase_spread_degrees raw)
              else phase_spread_degrees DEFAULT_WHEEL_ARC)\<rparr>)"

section \<open>Wheel finite state machine (wheel/fsm.ts)\<close>

definition computeWheelMode :: "DeckValue option \<Rightarrow> WheelMode" where
  "computeWheelMode crd =
     (case crd of
        None \<Rightarrow> LINEAR
      | Some InheritedValue \<Rightarrow> LINEAR
      | Some (CardValue c) \<Rightarrow>
          if card_type c = ''cover'' then COVER
          else if card_type c = ''decision'' then DECISION
          else if card_type c = ''terminal'' then TERMINAL
          else if phase (wheel_config c) = Some ''cpr_loop''
                  \<or> phase (wheel_config c) = Some ''loop'' then LOOP
          else LINEAR)"

section \<open>Wheel physics (wheel/physics.ts)\<close>

definition getCurrentWheelArc :: "Env \<Rightarrow> WheelArc" where
  "getCurrentWheelArc env = normalizeWheelArc (algorithm_meta (RUNTIME_ALGORITHM env))"

text \<open>
  \<open>visualAngle\<close> is \<open>None\<close> while the field is undefined. The write to the knob's
  style is an effect on the DOM only and is left out.
\<close>

definition setKnobPosition :: "Env \<Rightarrow> number \<Rightarrow> AppState \<Rightarrow> AppState" where
  "setKnobPosition env deg s =
     (if \<not> dom_knob env then s
      else
        (let lastVisual = (case visualAngle (wheel s) of None \<Rightarrow> deg | Some v \<Rightarrow> v);
             targetDeg = normalizeDegrees deg;
             normalizedLast = normalizeDegrees lastVisual;
             diff0 = num_sub targetDeg normalizedLast;
             diff1 = (if num_less (Number 180) diff0 then num_sub diff0 (Number 360) else diff0);
             diff = (if num_less diff1 (Number (- 180)) then num_add diff1 (Number 360)
                     else diff1);
             newVisual = num_add lastVisual diff
         in s\<lparr>wheel := (wheel s)\<lparr>visualAngle := Some newVisual\<rparr>\<rparr>))"

text \<open>A run of \<open>setKnobPosition\<close> calls; the list holds the state after each call.\<close>

fun setKnobPositions :: "Env \<Rightarrow> number list \<Rightarrow> AppState \<Rightarrow> AppState list" where
  "setKnobPositions env [] s = []"
| "setKnobPositions env (deg # degs) s =
     setKnobPosition env deg s # setKnobPositions env degs (setKnobPosition env deg s)"

section \<open>Timer (ui/timer.ts)\<close>

text \<open>
  \<open>timerInterval\<close> records whether an interval handle is held; the ticks of the interval
  (one increment of \<open>timerSeconds\<close> per second) are not navigation and are not modelled.
\<close>

definition startTimer :: "AppState \<Rightarrow> AppState" where
  "startTimer s = s\<lparr>timerRunning := True, timerInterval := True\<rparr>"

definition resetTimerState :: "AppState \<Rightarrow> AppState" where
  "resetTimerState s = s\<lparr>timerInterval := False, timerRunning := False, timerSeconds := 0\<rparr>"

section \<open>Anchor engine (navigation/anchors.ts)\<close>

definition angleOnArc :: "WheelArc \<Rightarrow> number \<Rightarrow> number" where
  "angleOnArc arc ratio =
     (let t = Math_max (Number 0) (Math_min (Number 1) ratio);
          cwDistance =
            num_rem (num_add (num_sub (end_degrees arc) (start_degrees arc)) (Number 360))
              (Number 360);
          ccwDistance =
            num_rem (num_add (num_sub (start_degrees arc) (end_degrees arc)) (Number 360))
              (Number 360)
      in if direction arc = anticlockwise
         then (let n = num_sub (start_degrees arc) (num_mul ccwDistance t);
                   md = num_rem n (Number 360)
               in if num_less md (Number 0) then num_add md (Number 360) else md)
         else (let n = num_add (start_degrees arc) (num_mul cwDistance t);
                   md = num_rem n (Number 360)
               in if num_less md (Number 0) then num_add md (Number 360) else md))"

definition currentAlgorithmStartId :: "Env \<Rightarrow> string option" where
  "currentAlgorithmStartId env =
     (case deck (RUNTIME_ALGORITHM env) of [] \<Rightarrow> None | c # cs \<Rightarrow> Some (card_id c))"

lemma rebuildDeckMap_dom_aux:
  "dom (foldl (\<lambda>m c. m(card_id c \<mapsto> c)) m0 cards) = dom m0 \<union> card_id ` set cards"
  by (induction cards arbitrary: m0) auto

lemma DECK_dom:
  "dom (DECK env) = card_id ` set (deck (RUNTIME_ALGORITHM env)) \<union> set Object_prototype_keys"
proof -
  have "dom (rebuildDeckMap (deck (RUNTIME_ALGORITHM env))) =
          card_id ` set (deck (RUNTIME_ALGORITHM env))"
    by (simp add: rebuildDeckMap_def rebuildDeckMap_dom_aux)
  then have own: "(rebuildDeckMap (deck (RUNTIME_ALGORITHM env)) k = None) =
                    (k \<notin> card_id ` set (deck (RUNTIME_ALGORITHM env)))" for k
    by (metis domIff)
  show ?thesis
  proof (rule set_eqI)
    fix k
    show "(k \<in> dom (DECK env)) =
            (k \<in> card_id ` set (deck (RUNTIME_ALGORITHM env)) \<union> set Object_prototype_keys)"
      using own [of k]
      by (cases "rebuildDeckMap (deck (RUNTIME_ALGORITHM env)) k") (simp_all add: DECK_def domIff)
  qed
qed

lemma finite_dom_DECK: "finite (dom (DECK env))"
  by (simp add: DECK_dom)

lemma card_unvisited_less:
  "finite A \<Longrightarrow> x \<in> A \<Longrightarrow> x \<notin> V \<Longrightarrow> card (A - insert x V) < card (A - V)"
  by (rule psubset_card_mono) auto

text \<open>
  The \<open>while\<close> loop of \<open>countPathLength\<close>, as a function of its variables \<open>cardId\<close>,
  \<open>visited\<close> and \<open>count\<close>. A null or empty \<open>cardId\<close> is falsy. An inherited value is
  counted and, having no \<open>transitions\<close>, ends the loop.
\<close>

function countPathLength_loop :: "Env \<Rightarrow> string option \<Rightarrow> string set \<Rightarrow> nat \<Rightarrow> nat" where
  "countPathLength_loop env cardId visited count =
     (case cardId of
        None \<Rightarrow> count
      | Some cid \<Rightarrow>
          if cid = [] then count
          else
            (case DECK env cid of
               None \<Rightarrow> count
             | Some v \<Rightarrow>
                 if cid \<in> visited then count
                 else
                   (case v of
                      InheritedValue \<Rightarrow> count + 1
                    | CardValue crd \<Rightarrow>
                        (case transitions crd of
                           None \<Rightarrow> count + 1
                         | Some (Linear n) \<Rightarrow>
                             countPathLength_loop env (Some n) (insert cid visited) (count + 1)
                         | Some (Split opts) \<Rightarrow>
                             countPathLength_loop env
                               (case opts of [] \<Rightarrow> None | opt # rest \<Rightarrow> Some (target_id opt))
                               (insert cid visited) (count + 1)
                         | Some (SelfLoop n) \<Rightarrow>
                             if n = card_id crd then count + 1
                             else countPathLength_loop env (Some n) (insert cid visited)
                                    (count + 1)))))"
  by pat_completeness auto
termination
  by (relation "measure (\<lambda>(env, cardId, visited, count). card (dom (DECK env) - visited))")
     (auto intro!: card_unvisited_less simp: finite_dom_DECK)

declare countPathLength_loop.simps [simp del]

definition countPathLength :: "Env \<Rightarrow> string \<Rightarrow> string set \<Rightarrow> nat" where
  "countPathLength env startId alreadyVisited =
     countPathLength_loop env (Some startId) alreadyVisited 0"

text \<open>
  The \<open>for\<close> loop of \<open>longestBranchTarget\<close> over the options, as a function of its
  variables \<open>bestTarget\<close> and \<open>bestLength\<close>.
\<close>

fun longestBranchTarget_loop ::
  "Env \<Rightarrow> string set \<Rightarrow> TransitionOption list \<Rightarrow> string option \<Rightarrow> int \<Rightarrow> string option \<times> int" where
  "longestBranchTarget_loop env visited [] bestTarget bestLength = (bestTarget, bestLength)"
| "longestBranchTarget_loop env visited (opt # opts) bestTarget bestLength =
     (if target_id opt = [] \<or> DECK env (target_id opt) = None
      then longestBranchTarget_loop env visited opts bestTarget bestLength
      else if target_id opt \<in> visited
      then longestBranchTarget_loop env visited opts bestTarget bestLength
      else
        (let len = int (countPathLength env (target_id opt) visited)
         in if len > bestLength
            then longestBranchTarget_loop env visited opts (Some (target_id opt)) len
            else longestBranchTarget_loop env visited opts bestTarget bestLength))"

definition longestBranchTarget :: "Env \<Rightarrow> Card \<Rightarrow> string set \<Rightarrow> string option" where
  "longestBranchTarget env crd visited =
     (case transitions crd of
        Some (Split opts) \<Rightarrow>
          (case fst (longestBranchTarget_loop env visited opts None (- 1)) of
             Some bestTarget \<Rightarrow>
               if bestTarget \<noteq> [] then Some bestTarget
               else (case opts of [] \<Rightarrow> None | opt # rest \<Rightarrow> Some (target_id opt))
           | None \<Rightarrow> (case opts of [] \<Rightarrow> None | opt # rest \<Rightarrow> Some (target_id opt)))
      | _ \<Rightarrow> None)"

text \<open>
  The \<open>while\<close> loop of \<open>computeForwardPath\<close>, as a function of its variables \<open>cardId\<close>,
  \<open>visited\<close> and \<open>path\<close>. Reading \<open>options[idx]\<close> outside the array yields undefined.
\<close>

function computeForwardPath_loop ::
  "Env \<Rightarrow> AppState \<Rightarrow> string option \<Rightarrow> string set \<Rightarrow> string list \<Rightarrow> string list" where
  "computeForwardPath_loop env s cardId visited path =
     (case cardId of
        None \<Rightarrow> path
      | Some cid \<Rightarrow>
          if cid = [] then path
          else
            (case DECK env cid of
               None \<Rightarrow> path
             | Some v \<Rightarrow>
                 if cid \<in> visited then path
                 else
                   (case v of
                      InheritedValue \<Rightarrow> path @ [cid]
                    | CardValue crd \<Rightarrow>
                        (case transitions crd of
                           None \<Rightarrow> path @ [cid]
                         | Some (Linear n) \<Rightarrow>
                             computeForwardPath_loop env s (Some n) (insert cid visited)
                               (path @ [cid])
                         | Some (Split opts) \<Rightarrow>
                             (case decisionRecords s (card_id crd) of
                                Some idx \<Rightarrow>
                                  computeForwardPath_loop env s
                                    (if 0 \<le> idx \<and> nat idx < length opts
                                     then Some (target_id (opts ! nat idx)) else None)
                                    (insert cid visited) (path @ [cid])
                              | None \<Rightarrow>
                                  computeForwardPath_loop env s
                                    (longestBranchTarget env crd (insert cid visited))
                                    (insert cid visited) (path @ [cid]))
                         | Some (SelfLoop n) \<Rightarrow>
                             if n = card_id crd then path @ [cid]
                             else computeForwardPath_loop env s (Some n) (insert cid visited)
                                    (path @ [cid])))))"
  by pat_completeness auto
termination
  by (relation "measure (\<lambda>(env, s, cardId, visited, path). card (dom (DECK env) - visited))")
     (auto intro!: card_unvisited_less simp: finite_dom_DECK)

declare computeForwardPath_loop.simps [simp del]

definition computeForwardPath :: "Env \<Rightarrow> AppState \<Rightarrow> string list" where
  "computeForwardPath env s =
     computeForwardPath_loop env s (currentAlgorithmStartId env) {} []"

text \<open>
  \<open>path.map((id, i) => ...)\<close>: the indices run along with the elements; \<open>i\<close> is the
  index of the next element and \<open>n\<close> the length of the whole path. Both are integers far
  below \<open>2 ^ 53\<close> and so are doubles as they stand.
\<close>

fun mapAnchors :: "WheelArc \<Rightarrow> nat \<Rightarrow> nat \<Rightarrow> string list \<Rightarrow> Anchor list" where
  "mapAnchors arc n i [] = []"
| "mapAnchors arc n i (cid # rest) =
     \<lparr>anchor_id = cid,
      anchor_angle =
        angleOnArc arc (num_div (Number (real i)) (num_sub (Number (real n)) (Number 1)))\<rparr>
       # mapAnchors arc n (Suc i) rest"

definition computeAnchors :: "Env \<Rightarrow> AppState \<Rightarrow> Anchor list" where
  "computeAnchors env s =
     (let path = computeForwardPath env s;
          arc = getCurrentWheelArc env
      in if length path = 0 then []
         else if length path = 1
         then [\<lparr>anchor_id = path ! 0, anchor_angle = start_degrees arc\<rparr>]
         else mapAnchors arc (length path) 0 path)"

fun findIndex_from :: "int \<Rightarrow> ('a \<Rightarrow> bool) \<Rightarrow> 'a list \<Rightarrow> int" where
  "findIndex_from i P [] = - 1"
| "findIndex_from i P (x # xs) = (if P x then i else findIndex_from (i + 1) P xs)"

definition findAnchorIndex :: "AppState \<Rightarrow> string option \<Rightarrow> int" where
  "findAnchorIndex s cardId = findIndex_from 0 (\<lambda>a. Some (anchor_id a) = cardId) (anchors s)"

definition currentAnchorAngle :: "Env \<Rightarrow> AppState \<Rightarrow> number" where
  "currentAnchorAngle env s =
     (if anchorIndex s \<ge> 0 \<and> anchorIndex s < int (length (anchors s))
      then anchor_angle (anchors s ! nat (anchorIndex s))
      else start_degrees (getCurrentWheelArc env))"

definition syncAnchors :: "Env \<Rightarrow> AppState \<Rightarrow> AppState" where
  "syncAnchors env s =
     (let s1 = s\<lparr>anchors := computeAnchors env s\<rparr>;
          idx = findAnchorIndex s1 (currentId s1)
      in if idx \<ge> 0 then s1\<lparr>anchorIndex := idx\<rparr>
         else s1\<lparr>anchorIndex := max 0 (int (length (anchors s1)) - 1)\<rparr>)"

section \<open>Render engine (cards/renderer.ts)\<close>

text \<open>
  \<open>render\<close> rewrites the wheel mode, the anchors and the knob angle of the state; the
  rest of it paints the DOM and is left out. The painting reads
  \<open>card.wheel_config.animation\<close> and would raise a TypeError on an inherited value, after the
  state has been rewritten.
\<close>

definition render :: "Env \<Rightarrow> AppState \<Rightarrow> AppState" where
  "render env s =
     (case DECK env (propertyKey (currentId s)) of
        None \<Rightarrow> s
      | Some crd \<Rightarrow>
          (let s1 = s\<lparr>wheel := (wheel s)\<lparr>mode := computeWheelMode (Some crd)\<rparr>\<rparr>;
               s2 = syncAnchors env s1;
               s3 = s2\<lparr>wheel := (wheel s2)\<lparr>angle := currentAnchorAngle env s2\<rparr>\<rparr>
           in setKnobPosition env (angle (wheel s3)) s3))"

section \<open>Advance and rewind (navigation/advance.ts)\<close>

text \<open>
  The decimal text that a template literal prints for an integer, used for the label
  \<open>Option n\<close> of an option that has none.
\<close>

definition digit_char :: "nat \<Rightarrow> char" where
  "digit_char d = ''0123456789'' ! d"

function number_text :: "nat \<Rightarrow> string" where
  "number_text n =
     (if n div 10 = 0 then [digit_char n]
      else number_text (n div 10) @ [digit_char (n mod 10)])"
  by pat_completeness auto
termination
  by (relation "measure (\<lambda>n. n)") auto

declare number_text.simps [simp del]

definition integer_text :: "int \<Rightarrow> string" where
  "integer_text i = (if i < 0 then CHR ''-'' # number_text (nat (- i)) else number_text (nat i))"

text \<open>
  Lines 16 to 42 of \<open>advance\<close>: the next id is resolved from the transition of the current
  card. \<open>None\<close> is the early \<open>return false\<close>; otherwise the result is \<open>nextId\<close> (null as
  \<open>None\<close>) with the state as the split branch has left it.
\<close>

definition advance_resolve ::
  "Env \<Rightarrow> string \<Rightarrow> bool \<Rightarrow> Card \<Rightarrow> AppState \<Rightarrow> (string option \<times> AppState) option" where
  "advance_resolve env src confirmed crd s =
     (case transitions crd of
        None \<Rightarrow> None
      | Some (Linear n) \<Rightarrow> Some (Some n, s)
      | Some (Split opts) \<Rightarrow>
          if length opts = 0 then None
          else if \<not> confirmed then None
          else
            (let pickedIndex =
                   normalizeDecisionIndexForCard (Some (CardValue crd))
                     (Number (of_int (decisionIndex s)));
                 picked = (if 0 \<le> pickedIndex \<and> nat pickedIndex < length opts
                           then Some (opts ! nat pickedIndex) else None);
                 nextId = (case picked of None \<Rightarrow> None | Some p \<Rightarrow> Some (target_id p));
                 s1 = s\<lparr>decisionRecords := (decisionRecords s)(card_id crd \<mapsto> pickedIndex)\<rparr>;
                 s2 = s1\<lparr>decisionTrail := decisionTrail s1 @
                        [\<lparr>trail_card_id = card_id crd,
                          option_index = pickedIndex,
                          option_label =
                            (case picked of
                               None \<Rightarrow> ''Option '' @ integer_text (pickedIndex + 1)
                             | Some p \<Rightarrow>
                                 if label p \<noteq> [] then label p
                                 else ''Option '' @ integer_text (pickedIndex + 1)),
                          trail_target_id =
                            (case nextId of
                               None \<Rightarrow> None
                             | Some n \<Rightarrow> if n \<noteq> [] then Some n else None),
                          interaction = ''forward-decision-confirm'',
                          trail_source = src,
                          timestamp = clock env\<rparr>]\<rparr>
             in Some (nextId, s2))
      | Some (SelfLoop n) \<Rightarrow> Some (Some (if n \<noteq> [] then n else card_id crd), s))"

text \<open>
  The constant \<open>autoStartCard\<close> of \<open>advance\<close>: the card named by
  \<open>algorithm_meta.global_timer.auto_start_on_card\<close>, null when a link of the chain is
  missing.
\<close>

definition autoStartCard :: "Env \<Rightarrow> string option" where
  "autoStartCard env =
     (case algorithm_meta (RUNTIME_ALGORITHM env) of
        None \<Rightarrow> None
      | Some m \<Rightarrow>
          (case global_timer m of
             None \<Rightarrow> None
           | Some g \<Rightarrow> auto_start_on_card g))"

text \<open>
  Lines 44 to 69 of \<open>advance\<close>: the move to \<open>nextId\<close>, when \<open>DECK[nextId]\<close> is truthy.
  The timer is to start when \<open>autoStartCard\<close> is falsy (null or empty) or is the card
  moved to.
\<close>

definition advance_commit :: "Env \<Rightarrow> string option \<Rightarrow> AppState \<Rightarrow> bool \<times> AppState" where
  "advance_commit env nextId s =
     (case nextId of
        None \<Rightarrow> (False, s)
      | Some nid \<Rightarrow>
          if nid = [] then (False, s)
          else
            (case DECK env nid of
               None \<Rightarrow> (False, s)
             | Some nextCard \<Rightarrow>
                 (let s1 = (if Some nid \<noteq> currentId s
                            then s\<lparr>history := history s @ [currentId s]\<rparr> else s);
                      s2 = s1\<lparr>currentId := Some nid\<rparr>;
                      s3 = (if isSplitDecisionCard (Some nextCard)
                            then s2\<lparr>decisionIndex := rememberedDecisionIndexForCard s2 nextCard\<rparr>
                            else s2\<lparr>decisionIndex := 0\<rparr>);
                      s4 = s3\<lparr>decisionTapped := False, carouselIndex := 0\<rparr>;
                      shouldStartTimer =
                        (autoStartCard env = None \<or> autoStartCard env = Some []
                         \<or> Some nid = autoStartCard env);
                      s5 = (if \<not> timerRunning s4 \<and> shouldStartTimer then startTimer s4 else s4)
                  in (True, render env s5))))"

text \<open>
  On an inherited value \<open>status\<close> and \<open>transitions\<close> are undefined, so \<open>advance\<close>
  returns false at line 18.
\<close>

definition advance :: "Env \<Rightarrow> AdvanceOptions \<Rightarrow> AppState \<Rightarrow> bool \<times> AppState" where
  "advance env options s =
     (let src = (case source options of
                   None \<Rightarrow> ''ui''
                 | Some x \<Rightarrow> if x \<noteq> [] then x else ''ui'');
          confirmed = (splitConfirmed options = Some True \<or> src = ''automation'')
      in case DECK env (propertyKey (currentId s)) of
           None \<Rightarrow> (False, s)
         | Some InheritedValue \<Rightarrow> (False, s)
         | Some (CardValue crd) \<Rightarrow>
             if status crd = Some ''complete'' then (False, s)
             else
               (case advance_resolve env src confirmed crd s of
                  None \<Rightarrow> (False, s)
                | Some (nextId, s') \<Rightarrow> advance_commit env nextId s'))"

definition rewind :: "Env \<Rightarrow> AppState \<Rightarrow> bool \<times> AppState" where
  "rewind env s =
     (if length (history s) \<le> 0 then (False, s)
      else
        (let prevId = last (history s);
             s1 = s\<lparr>history := butlast (history s)\<rparr>;
             s2 = s1\<lparr>currentId := prevId\<rparr>;
             s3 = (case DECK env (propertyKey prevId) of
                     None \<Rightarrow> s2\<lparr>decisionIndex := 0, decisionTapped := False\<rparr>
                   | Some prevCard \<Rightarrow>
                       if isSplitDecisionCard (Some prevCard)
                       then s2\<lparr>decisionIndex := rememberedDecisionIndexForCard s2 prevCard,
                               decisionTapped := (decisionRecords s2 (propertyKey prevId) \<noteq> None)\<rparr>
                       else s2\<lparr>decisionIndex := 0, decisionTapped := False\<rparr>);
             s4 = s3\<lparr>carouselIndex := 0\<rparr>
         in (True, render env s4)))"

section \<open>Automation API (automation.ts)\<close>

text \<open>
  Every mutating call answers \<open>{ok, error, snapshot}\<close>; the snapshot is a copy of fields
  of the state the call returns, so the model returns that state beside \<open>ok\<close> and \<open>error\<close>.
\<close>

record AutomationResult =
  ok :: bool
  error :: "string option"

definition setCurrentCardForAutomation ::
  "Env \<Rightarrow> string option \<Rightarrow> AppState \<Rightarrow> AutomationResult \<times> AppState" where
  "setCurrentCardForAutomation env cardId s =
     (case DECK env (propertyKey cardId) of
        None \<Rightarrow> (\<lparr>ok = False, error = Some (''Unknown card id: '' @ propertyKey cardId)\<rparr>, s)
      | Some crd \<Rightarrow>
          (let s1 = s\<lparr>currentId := value_id crd, history := []\<rparr>;
               s2 = (if isSplitDecisionCard (Some crd)
                     then s1\<lparr>decisionIndex := rememberedDecisionIndexForCard s1 crd\<rparr>
                     else s1\<lparr>decisionIndex := 0\<rparr>);
               s3 = s2\<lparr>decisionTapped := False, carouselIndex := 0\<rparr>;
               s4 = s3\<lparr>wheel := (wheel s3)\<lparr>mode := computeWheelMode (Some crd),
                                             dragOrigin := None, navConsumed := False\<rparr>\<rparr>;
               s5 = resetTimerState s4
           in (\<lparr>ok = True, error = None\<rparr>, render env s5)))"



definition selectDecisionOption ::
  "Env \<Rightarrow> number \<Rightarrow> AppState \<Rightarrow> AutomationResult \<times> AppState" where
  "selectDecisionOption env index s =
     (case DECK env (propertyKey (currentId s)) of
        Some (CardValue crd) \<Rightarrow>
          (case transitions crd of
             Some (Split opts) \<Rightarrow>
               (let s1 = s\<lparr>decisionIndex :=
                            normalizeDecisionIndexForCard (Some (CardValue crd)) index\<rparr>;
                    s2 = s1\<lparr>decisionTapped := True\<rparr>
                in (\<lparr>ok = True, error = None\<rparr>, render env s2))
           | _ \<Rightarrow> (\<lparr>ok = False, error = Some ''Current card is not a split decision card''\<rparr>, s))
      | _ \<Rightarrow> (\<lparr>ok = False, error = Some ''Current card is not a split decision card''\<rparr>, s))"

definition automation_advance :: "Env \<Rightarrow> AppState \<Rightarrow> AutomationResult \<times> bool \<times> AppState" where
  "automation_advance env s =
     (let (moved, s') = advance env \<lparr>source = Some ''automation'', splitConfirmed = Some True\<rparr> s
      in (\<lparr>ok = True, error = None\<rparr>, moved, s'))"

definition automation_back :: "Env \<Rightarrow> AppState \<Rightarrow> AutomationResult \<times> AppState" where
  "automation_back env s = (\<lparr>ok = True, error = None\<rparr>, snd (rewind env s))"

section \<open>Loading an algorithm (main.ts)\<close>

text \<open>
  \<open>applyAlgorithm\<close> after \<open>setRuntimeAlgorithm\<close> and \<open>rebuildDeckMap\<close>: \<open>env\<close> holds the
  normalised algorithm, and every navigation field of the state is set anew.
\<close>

definition applyAlgorithm :: "Env \<Rightarrow> AppState \<Rightarrow> AppState" where
  "applyAlgorithm env s =
     (let s1 = s\<lparr>currentId := (case currentAlgorithmStartId env of
                                  None \<Rightarrow> Some ''CARD_00_START''
                                | Some x \<Rightarrow> if x \<noteq> [] then Some x else Some ''CARD_00_START''),
                 history := [], decisionIndex := 0, decisionRecords := Map.empty,
                 decisionTrail := [], decisionTapped := False, carouselIndex := 0,
                 checklistState := Map.empty, anchors := [], anchorIndex := 0,
                 wheel := (wheel s)\<lparr>dragOrigin := None, navConsumed := False\<rparr>\<rparr>;
          s2 = s1\<lparr>wheel := (wheel s1)\<lparr>mode :=
                  (case DECK env (propertyKey (currentId s1)) of
                     None \<Rightarrow> LINEAR
                   | Some crd \<Rightarrow> computeWheelMode (Some crd))\<rparr>\<rparr>;
          s3 = s2\<lparr>wheel := (wheel s2)\<lparr>angle := Number 330, visualAngle := Some (Number 330)\<rparr>\<rparr>;
          s4 = resetTimerState s3
      in render env s4)"

section \<open>Notions for the longest-branch rule\<close>



section \<open>An invariant of the navigation state\<close>

text \<open>
  Every write to \<open>decisionIndex\<close> stores either 0 or a value normalised for the card the
  state then stands on, so the index is always a fixed point of
  \<open>normalizeDecisionIndexForCard\<close> for the current card; on a card that is not a
  split-decision card it is 0.
\<close>

definition decisionIndex_normalised :: "Env \<Rightarrow> AppState \<Rightarrow> bool" where
  "decisionIndex_normalised env s =
     (decisionIndex s =
        normalizeDecisionIndexForCard (DECK env (propertyKey (currentId s)))
          (Number (of_int (decisionIndex s))))"

section \<open>Example inputs\<close>

text \<open>
  A small deck for the concrete instances below: a cover \<open>A\<close>, a step \<open>B\<close>, a decision
  \<open>D\<close> with the options YES (to the terminal card \<open>E\<close>) and NO (to the looping card \<open>F\<close>),
  a decision \<open>G\<close> whose only option names a card \<open>Z\<close> that the deck does not hold, a
  completed card \<open>H\<close> that still carries a linear transition, and a step \<open>I\<close> that
  leads to \<open>H\<close>.
\<close>

definition mk_card :: "string \<Rightarrow> string \<Rightarrow> Transition option \<Rightarrow> string option \<Rightarrow> Card" where
  "mk_card cid ty tr st =
     \<lparr>card_id = cid, card_type = ty,
      wheel_config = \<lparr>position_degrees = None, phase = None\<rparr>,
      transitions = tr, status = st\<rparr>"

definition demo_deck :: "Card list" where
  "demo_deck =
     [mk_card ''A'' ''cover'' (Some (Linear ''B'')) None,
      mk_card ''B'' ''standard'' (Some (Linear ''D'')) None,
      mk_card ''D'' ''decision''
        (Some (Split [\<lparr>label = ''YES'', target_id = ''E''\<rparr>,
                      \<lparr>label = ''NO'', target_id = ''F''\<rparr>])) None,
      mk_card ''E'' ''terminal'' None (Some ''complete''),
      mk_card ''F'' ''action'' (Some (SelfLoop ''F'')) None,
      mk_card ''G'' ''decision'' (Some (Split [\<lparr>label = ''GO'', target_id = ''Z''\<rparr>])) None,
      mk_card ''H'' ''terminal'' (Some (Linear ''B'')) (Some ''complete''),
      mk_card ''I'' ''standard'' (Some (Linear ''H'')) None]"

definition demo_env :: Env where
  "demo_env =
     \<lparr>RUNTIME_ALGORITHM = \<lparr>algorithm_meta = None, deck = demo_deck\<rparr>,
      dom_knob = True, clock = ''2024-01-01T00:00:00.000Z''\<rparr>"

text \<open>
  A state on card \<open>cid\<close> with history \<open>hist\<close>, the timer running at 42 seconds, the wheel
  as \<open>applyAlgorithm\<close> leaves it.
\<close>

definition demo_state :: "string \<Rightarrow> string list \<Rightarrow> AppState" where
  "demo_state cid hist =
     \<lparr>currentId = Some cid, history = map Some hist, decisionIndex = 0,
      decisionRecords = Map.empty, decisionTrail = [], decisionTapped = False,
      carouselIndex = 0, timerSeconds = 42, timerRunning = True, timerInterval = True,
      checklistState = Map.empty, anchors = [], anchorIndex = 0,
      wheel = \<lparr>mode = COVER, angle = Number 330, visualAngle = Some (Number 330),
               dragOrigin = None, navConsumed = False\<rparr>\<rparr>"








text \<open>
  The doubles nearest to 109.2 and 289.2, two targets for the knob.
\<close>

definition target_109_2 :: real where
  "target_109_2 = 7684266864200909 / 2 ^ 46"

definition target_289_2 :: real where
  "target_289_2 = 5087660204045107 / 2 ^ 44"

section \<open>Auxiliary facts\<close>

subsection \<open>Rounding to a double\<close>

lemma rne_bounds: "\<lfloor>x\<rfloor> \<le> rne x" "rne x \<le> \<lfloor>x\<rfloor> + 1"
  by (simp_all add: rne_def Let_def)

lemma rne_of_int [simp]: "rne (of_int n) = n"
  by (simp add: rne_def)

lemma rne_mono: "x \<le> y \<Longrightarrow> rne x \<le> rne y"
proof -
  assume le: "x \<le> y"
  then have fl: "\<lfloor>x\<rfloor> \<le> \<lfloor>y\<rfloor>" by (rule floor_mono)
  show ?thesis
  proof (cases "\<lfloor>x\<rfloor> = \<lfloor>y\<rfloor>")
    case True
    with le show ?thesis by (auto simp: rne_def Let_def)
  next
    case False
    with fl have "\<lfloor>x\<rfloor> + 1 \<le> \<lfloor>y\<rfloor>" by simp
    with rne_bounds(2) [of x] rne_bounds(1) [of y] show ?thesis by linarith
  qed
qed

lemma rne_error: "\<bar>of_int (rne x) - x\<bar> \<le> 1 / 2"
proof -
  have "of_int \<lfloor>x\<rfloor> \<le> x" "x < of_int \<lfloor>x\<rfloor> + 1" by linarith+
  then show ?thesis by (auto simp: rne_def Let_def)
qed

lemma rne_minus: "rne (- x) = - rne x"
proof (cases "x = of_int \<lfloor>x\<rfloor>")
  case True
  then obtain n :: int where "x = of_int n" ..
  then show ?thesis by (simp flip: of_int_minus)
next
  case False
  have b: "of_int \<lfloor>x\<rfloor> \<le> x" "x < of_int \<lfloor>x\<rfloor> + 1" by linarith+
  from False of_int_floor_le [of x] have lt: "of_int \<lfloor>x\<rfloor> < x" by (metis order_less_le)
  have fm: "\<lfloor>- x\<rfloor> = - \<lfloor>x\<rfloor> - 1"
    using lt b(2) by (intro floor_unique; simp; linarith)
  show ?thesis
    using lt b(2) by (auto simp: rne_def Let_def fm)
qed

lemma expo_ge: "- 1022 \<le> expo x"
  by (simp add: expo_def)

lemma two_powi_pos: "(0::real) < 2 powi k"
  by (simp add: zero_less_power_int)

lemma two_powi_nat: "0 \<le> k \<Longrightarrow> (2::real) powi k = 2 ^ nat k"
  by (simp add: power_int_def)

lemma two_powi_add: "(2::real) powi (a + b) = 2 powi a * 2 powi b"
  by (simp add: power_int_add)

lemma two_powi_mono: "a \<le> b \<Longrightarrow> (2::real) powi a \<le> 2 powi b"
  by (rule power_int_increasing) simp_all

lemma two_powi_less_cancel: "(2::real) powi a < 2 powi b \<Longrightarrow> a < b"
proof (rule ccontr)
  assume "2 powi a < (2::real) powi b" "\<not> a < b"
  then have "b \<le> a" by simp
  from two_powi_mono [OF this] \<open>2 powi a < (2::real) powi b\<close> show False by simp
qed

lemma expo_unfold:
  "m = 1074 \<Longrightarrow> expo x = max (bitlen \<lfloor>\<bar>x\<bar> * 2 ^ m\<rfloor> - (int m + 1)) (- 1022)"
  by (simp add: expo_def)

lemma expo_upper: "\<bar>x\<bar> < 2 powi (expo x + 1)"
proof -
  obtain m :: nat where m: "m = 1074" by simp
  note e = expo_unfold [OF m, of x]
  define N where "N = \<lfloor>\<bar>x\<bar> * 2 ^ m\<rfloor>"
  have N0: "0 \<le> N" by (simp add: N_def)
  have b0: "0 \<le> bitlen N" by (rule bitlen_nonneg)
  have "N < 2 ^ nat (bitlen N)"
  proof (cases "N = 0")
    case True
    then show ?thesis by simp
  next
    case False
    with N0 have "0 < N" by simp
    from bitlen_bounds [OF this] show ?thesis by simp
  qed
  then have "N + 1 \<le> 2 ^ nat (bitlen N)" by simp
  then have "real_of_int (N + 1) \<le> real_of_int (2 ^ nat (bitlen N))"
    by (simp only: of_int_le_iff)
  moreover have "\<bar>x\<bar> * 2 ^ m < real_of_int (N + 1)"
    unfolding N_def by linarith
  ultimately have "\<bar>x\<bar> * 2 ^ m < 2 ^ nat (bitlen N)" by simp
  also have "\<dots> = 2 powi (bitlen N)" using b0 by (simp add: two_powi_nat)
  also have "\<dots> = 2 powi (bitlen N - int m) * 2 ^ m"
    using two_powi_add [of "bitlen N - int m" "int m"] by simp
  finally have "\<bar>x\<bar> < 2 powi (bitlen N - int m)" by simp
  also have "\<dots> \<le> 2 powi (expo x + 1)"
    by (rule two_powi_mono) (simp add: e N_def)
  finally show ?thesis .
qed

lemma expo_lower:
  assumes "- 1022 < expo x"
  shows "2 powi (expo x) \<le> \<bar>x\<bar>"
proof -
  obtain m :: nat where m: "m = 1074" by simp
  note e = expo_unfold [OF m, of x]
  have im: "int m = 1074" using m by simp
  define N where "N = \<lfloor>\<bar>x\<bar> * 2 ^ m\<rfloor>"
  from assms have ex: "expo x = bitlen N - (int m + 1)" and b: "54 \<le> bitlen N"
    using im by (simp_all add: e N_def max_def split: if_splits)
  from b have "N > 0" using bitlen_eq_zero_iff [of N] by (cases "N \<le> 0") auto
  from bitlen_bounds [OF this] have "2 ^ nat (bitlen N - 1) \<le> N" by simp
  then have "real_of_int (2 ^ nat (bitlen N - 1)) \<le> real_of_int N"
    by (simp only: of_int_le_iff)
  then have "(2::real) ^ nat (bitlen N - 1) \<le> real_of_int N" by simp
  also have "real_of_int N \<le> \<bar>x\<bar> * 2 ^ m" unfolding N_def by linarith
  finally have "2 ^ nat (bitlen N - 1) \<le> \<bar>x\<bar> * 2 ^ m" .
  moreover have "(2::real) ^ nat (bitlen N - 1) = 2 powi (bitlen N - 1)"
    using b by (simp add: two_powi_nat)
  moreover have "(2::real) powi (bitlen N - 1) = 2 powi (bitlen N - (int m + 1)) * 2 ^ m"
    using two_powi_add [of "bitlen N - (int m + 1)" "int m"] by simp
  ultimately have "2 powi (bitlen N - (int m + 1)) \<le> \<bar>x\<bar>" by simp
  with ex show ?thesis by simp
qed

lemma expo_le:
  assumes "\<bar>x\<bar> < 2 powi (e + 1)" "- 1022 \<le> e"
  shows "expo x \<le> e"
proof (cases "- 1022 < expo x")
  case True
  from expo_lower [OF True] assms(1) have "2 powi (expo x) < (2::real) powi (e + 1)" by simp
  from two_powi_less_cancel [OF this] show ?thesis by simp
next
  case False
  with expo_ge [of x] assms(2) show ?thesis by simp
qed

lemma expo_ge_iff:
  assumes "2 powi e \<le> \<bar>x\<bar>"
  shows "e \<le> expo x"
proof -
  from assms expo_upper [of x] have "2 powi e < (2::real) powi (expo x + 1)" by simp
  from two_powi_less_cancel [OF this] show ?thesis by simp
qed

lemma expo_eq:
  assumes "2 powi e \<le> \<bar>x\<bar>" "\<bar>x\<bar> < 2 powi (e + 1)" "- 1022 \<le> e"
  shows "expo x = e"
  using expo_le [OF assms(2,3)] expo_ge_iff [OF assms(1)] by simp

lemma expo_minus [simp]: "expo (- x) = expo x"
  unfolding expo_def by (simp only: abs_minus_cancel)

lemma expo_abs_mono:
  assumes "\<bar>x\<bar> \<le> \<bar>y\<bar>"
  shows "expo x \<le> expo y"
proof (cases "- 1022 < expo x")
  case True
  from expo_lower [OF True] assms have "2 powi (expo x) \<le> \<bar>y\<bar>" by simp
  then show ?thesis by (rule expo_ge_iff)
next
  case False
  with expo_ge [of x] expo_ge [of y] show ?thesis by simp
qed

lemma round_real_minus: "round_real (- x) = - round_real x"
  by (simp add: round_real_def rne_minus)

lemma round_real_zero [simp]: "round_real 0 = 0"
  using rne_of_int [of 0] by (simp add: round_real_def)

lemma round_real_nonneg:
  assumes "0 \<le> x"
  shows "0 \<le> round_real x"
proof -
  let ?q = "(2::real) powi (expo x - 52)"
  have q: "0 < ?q" by (rule two_powi_pos)
  with assms have "real_of_int 0 \<le> x / ?q" by simp
  from rne_mono [OF this] have "0 \<le> rne (x / ?q)" by (simp only: rne_of_int)
  with q show ?thesis by (simp add: round_real_def)
qed

lemma round_real_upper:
  assumes "0 \<le> x"
  shows "round_real x \<le> 2 powi (expo x + 1)"
proof -
  let ?q = "(2::real) powi (expo x - 52)"
  have q: "0 < ?q" by (rule two_powi_pos)
  have split: "(2::real) powi (expo x + 1) = ?q * real_of_int (2 ^ 53)"
    using two_powi_add [of "expo x - 52" 53] by (simp add: ac_simps)
  from expo_upper [of x] assms have "x < ?q * real_of_int (2 ^ 53)"
    by (simp only: split abs_of_nonneg)
  with q have "x / ?q \<le> real_of_int (2 ^ 53)"
    by (simp add: field_simps)
  from rne_mono [OF this] have "rne (x / ?q) \<le> 2 ^ 53" by (simp only: rne_of_int)
  then have "real_of_int (rne (x / ?q)) \<le> real_of_int (2 ^ 53)"
    by (simp only: of_int_le_iff)
  with q have "?q * real_of_int (rne (x / ?q)) \<le> ?q * real_of_int (2 ^ 53)"
    by (simp only: mult_le_cancel_left_pos)
  then show ?thesis by (simp only: round_real_def split)
qed

lemma round_real_lower:
  assumes "0 \<le> x" "- 1022 < expo x"
  shows "2 powi (expo x) \<le> round_real x"
proof -
  let ?q = "(2::real) powi (expo x - 52)"
  have q: "0 < ?q" by (rule two_powi_pos)
  have split: "(2::real) powi (expo x) = ?q * real_of_int (2 ^ 52)"
    using two_powi_add [of "expo x - 52" 52] by simp
  from expo_lower [OF assms(2)] assms(1) have "?q * real_of_int (2 ^ 52) \<le> x"
    by (simp only: split abs_of_nonneg)
  with q have "real_of_int (2 ^ 52) \<le> x / ?q"
    by (simp add: field_simps)
  from rne_mono [OF this] have "2 ^ 52 \<le> rne (x / ?q)" by (simp only: rne_of_int)
  then have "real_of_int (2 ^ 52) \<le> real_of_int (rne (x / ?q))"
    by (simp only: of_int_le_iff)
  with q have "?q * real_of_int (2 ^ 52) \<le> ?q * real_of_int (rne (x / ?q))"
    by (simp only: mult_le_cancel_left_pos)
  then show ?thesis by (simp only: round_real_def split)
qed

lemma round_real_mono_nonneg:
  assumes "0 \<le> x" "x \<le> y"
  shows "round_real x \<le> round_real y"
proof -
  from assms have y: "0 \<le> y" by simp
  from assms have "\<bar>x\<bar> \<le> \<bar>y\<bar>" by simp
  then have le: "expo x \<le> expo y" by (rule expo_abs_mono)
  show ?thesis
  proof (cases "expo x = expo y")
    case True
    let ?q = "(2::real) powi (expo y - 52)"
    have q: "0 < ?q" by (rule two_powi_pos)
    with assms(2) have "x / ?q \<le> y / ?q" by (simp add: divide_right_mono)
    from rne_mono [OF this] have "real_of_int (rne (x / ?q)) \<le> real_of_int (rne (y / ?q))"
      by (simp only: of_int_le_iff)
    with q have "?q * real_of_int (rne (x / ?q)) \<le> ?q * real_of_int (rne (y / ?q))"
      by (simp only: mult_le_cancel_left_pos)
    with True show ?thesis by (simp only: round_real_def)
  next
    case False
    with le have lt: "expo x + 1 \<le> expo y" by simp
    with expo_ge [of x] have n: "- 1022 < expo y" by simp
    have "round_real x \<le> 2 powi (expo x + 1)" by (rule round_real_upper [OF assms(1)])
    also have "\<dots> \<le> 2 powi (expo y)" by (rule two_powi_mono [OF lt])
    also have "\<dots> \<le> round_real y" by (rule round_real_lower [OF y n])
    finally show ?thesis .
  qed
qed

lemma round_real_mono:
  assumes "x \<le> y"
  shows "round_real x \<le> round_real y"
proof (cases "0 \<le> x")
  case True
  then show ?thesis using assms by (rule round_real_mono_nonneg)
next
  case False
  then have x: "0 \<le> - x" by simp
  show ?thesis
  proof (cases "0 \<le> y")
    case True
    from round_real_nonneg [OF x] round_real_nonneg [OF True] show ?thesis
      by (simp add: round_real_minus)
  next
    case False
    then have "0 \<le> - y" by simp
    moreover from assms have "- y \<le> - x" by simp
    ultimately have "round_real (- y) \<le> round_real (- x)" by (rule round_real_mono_nonneg)
    then show ?thesis by (simp add: round_real_minus)
  qed
qed

lemma round_real_error: "\<bar>round_real x - x\<bar> \<le> 2 powi (expo x - 53)"
proof -
  let ?q = "(2::real) powi (expo x - 52)"
  have q: "0 < ?q" by (rule two_powi_pos)
  have half: "(2::real) powi (expo x - 53) = ?q * (1 / 2)"
    using two_powi_add [of "expo x - 53" 1] by simp
  from q have x: "x = ?q * (x / ?q)" by simp
  have "round_real x - x = ?q * (real_of_int (rne (x / ?q)) - x / ?q)"
    using q by (simp add: round_real_def right_diff_distrib)
  then have "\<bar>round_real x - x\<bar> = ?q * \<bar>real_of_int (rne (x / ?q)) - x / ?q\<bar>"
    using q by (simp add: abs_mult)
  also have "\<dots> \<le> ?q * (1 / 2)"
    using rne_error [of "x / ?q"] q by (simp only: mult_le_cancel_left_pos)
  finally show ?thesis by (simp only: half)
qed

lemma round_real_fix:
  assumes "x = real_of_int m * 2 powi k" "\<bar>m\<bar> < 2 ^ 53" "- 1074 \<le> k"
  shows "round_real x = x"
proof -
  let ?e = "expo x"
  let ?q = "(2::real) powi (?e - 52)"
  have q: "0 < ?q" by (rule two_powi_pos)
  have k: "?e - 52 \<le> k"
  proof (rule ccontr)
    assume "\<not> ?e - 52 \<le> k"
    then have lt: "k + 53 \<le> ?e" by simp
    with assms(3) have "- 1022 < ?e" by simp
    from expo_lower [OF this] have "2 powi ?e \<le> \<bar>x\<bar>" .
    also have "\<bar>x\<bar> = real_of_int \<bar>m\<bar> * 2 powi k"
      using two_powi_pos [of k] by (simp add: assms(1) abs_mult)
    also have "\<dots> < real_of_int (2 ^ 53) * 2 powi k"
      using assms(2) two_powi_pos [of k] by (simp only: mult_less_cancel_right_pos of_int_less_iff)
    also have "\<dots> = 2 powi (k + 53)"
      using two_powi_add [of k 53] by simp
    also have "\<dots> \<le> 2 powi ?e" by (rule two_powi_mono [OF lt])
    finally show False by simp
  qed
  define q where "q = (2::real) powi (?e - 52)"
  define n where "n = nat (k - (?e - 52))"
  have q: "0 < q" unfolding q_def by (rule two_powi_pos)
  have "2 powi k = q * 2 powi (k - (?e - 52))"
    unfolding q_def using two_powi_add [of "?e - 52" "k - (?e - 52)"] by simp
  also have "(2::real) powi (k - (?e - 52)) = 2 ^ n"
    unfolding n_def using k by (simp add: two_powi_nat)
  finally have pk: "2 powi k = q * 2 ^ n" .
  from assms(1) pk q have "x / q = real_of_int m * 2 ^ n" by simp
  then have xq: "x / q = real_of_int (m * 2 ^ n)" by simp
  then have "rne (x / q) = m * 2 ^ n"
    by (simp only: rne_of_int)
  with xq have "real_of_int (rne (x / q)) = x / q" by simp
  with q have "q * real_of_int (rne (x / q)) = x" by simp
  then show ?thesis by (simp only: round_real_def q_def)
qed

lemma round_real_int:
  assumes "\<bar>n\<bar> < 2 ^ 53"
  shows "round_real (real_of_int n) = real_of_int n"
  using round_real_fix [of "real_of_int n" n 0] assms by simp

lemma round_real_abs_upper: "\<bar>round_real x\<bar> \<le> 2 powi (expo x + 1)"
proof (cases "0 \<le> x")
  case True
  from round_real_nonneg [OF True] round_real_upper [OF True] show ?thesis by simp
next
  case False
  then have x: "0 \<le> - x" by simp
  from round_real_nonneg [OF x] round_real_upper [OF x] show ?thesis
    by (simp add: round_real_minus)
qed

lemma round_double_finite:
  "\<bar>round_real x\<bar> < 2 ^ 1024 \<Longrightarrow> round_double x = Number (round_real x)"
  by (simp add: round_double_def)

lemma round_double_between:
  assumes "a \<le> x" "x \<le> b" "round_real a = a" "round_real b = b"
    and "\<bar>a\<bar> \<le> 2 ^ 53" "\<bar>b\<bar> \<le> 2 ^ 53"
  shows "\<exists>r. round_double x = Number r \<and> r = round_real x \<and> a \<le> r \<and> r \<le> b"
proof -
  from round_real_mono [OF assms(1)] round_real_mono [OF assms(2)] assms(3,4)
  have r: "a \<le> round_real x" "round_real x \<le> b" by simp_all
  with assms(5,6) have "\<bar>round_real x\<bar> \<le> 2 ^ 53" by linarith
  also have "(2::real) ^ 53 < 2 ^ 1024" by (rule power_strict_increasing) simp_all
  finally have "round_double x = Number (round_real x)" by (rule round_double_finite)
  with r show ?thesis by simp
qed

lemma round_double_int:
  assumes "\<bar>n\<bar> < 2 ^ 53"
  shows "round_double (real_of_int n) = Number (real_of_int n)"
proof -
  from assms have "\<bar>real_of_int n\<bar> < real_of_int (2 ^ 53)"
    by (simp only: of_int_abs [symmetric] of_int_less_iff)
  then have "\<bar>real_of_int n\<bar> < 2 ^ 53" by simp
  also have "(2::real) ^ 53 < 2 ^ 1024" by (rule power_strict_increasing) simp_all
  finally have "\<bar>round_real (real_of_int n)\<bar> < 2 ^ 1024"
    by (simp only: round_real_int [OF assms])
  then show ?thesis by (simp only: round_double_finite round_real_int [OF assms])
qed

lemma round_double_eval:
  assumes "2 powi e \<le> \<bar>x\<bar>" "\<bar>x\<bar> < 2 powi (e + 1)" "- 1022 \<le> e" "e \<le> 1022"
  shows "round_double x = Number (2 powi (e - 52) * of_int (rne (x / 2 powi (e - 52))))"
proof -
  from expo_eq [OF assms(1,2,3)] have e: "expo x = e" .
  have "\<bar>round_real x\<bar> \<le> 2 powi (e + 1)" using round_real_abs_upper [of x] e by simp
  also have "\<dots> \<le> 2 powi 1023" by (rule two_powi_mono) (use assms(4) in simp)
  also have "\<dots> = (2::real) ^ 1023" by (simp only: power_int_numeral)
  also have "\<dots> < 2 ^ 1024" by (rule power_strict_increasing) simp_all
  finally have "round_double x = Number (round_real x)" by (rule round_double_finite)
  then show ?thesis by (simp only: round_real_def e)
qed

lemma half_ulp_bound: "2 powi (expo x - 53) \<le> \<bar>x\<bar> / 2 ^ 53 + 2 powi (- 1075)"
proof (cases "- 1022 < expo x")
  case True
  have "(2::real) powi (expo x) = 2 powi (expo x - 53) * 2 ^ 53"
    using two_powi_add [of "expo x - 53" 53] by simp
  with expo_lower [OF True] have "2 powi (expo x - 53) * 2 ^ 53 \<le> \<bar>x\<bar>" by simp
  then have "2 powi (expo x - 53) \<le> \<bar>x\<bar> / 2 ^ 53" by (simp add: field_simps)
  moreover have "(0::real) < 2 powi (- 1075)" by (rule two_powi_pos)
  ultimately show ?thesis by linarith
next
  case False
  with expo_ge [of x] have "expo x = - 1022" by simp
  then have "(2::real) powi (expo x - 53) = 2 powi (- 1075)" by simp
  moreover have "0 \<le> \<bar>x\<bar> / 2 ^ 53" by simp
  ultimately show ?thesis by linarith
qed

subsection \<open>Principal values and the delta of the knob\<close>

lemma js_rem_360_nonneg:
  assumes "0 \<le> a"
  shows "0 \<le> js_rem a 360" and "js_rem a 360 < 360"
proof -
  from assms have q: "\<not> a / 360 < 0" by simp
  then have eq: "js_rem a 360 = a - 360 * of_int \<lfloor>a / 360\<rfloor>"
    by (simp add: js_rem_def)
  have "of_int \<lfloor>a / 360\<rfloor> \<le> a / 360" "a / 360 < of_int \<lfloor>a / 360\<rfloor> + 1"
    by linarith+
  then have "360 * of_int \<lfloor>a / 360\<rfloor> \<le> a" "a < 360 * of_int \<lfloor>a / 360\<rfloor> + 360"
    by linarith+
  with eq show "0 \<le> js_rem a 360" and "js_rem a 360 < 360" by simp_all
qed

lemma js_rem_360_neg:
  assumes "a < 0"
  shows "- 360 < js_rem a 360" and "js_rem a 360 \<le> 0"
proof -
  from assms have q: "a / 360 < 0" by simp
  then have eq: "js_rem a 360 = a - 360 * of_int \<lceil>a / 360\<rceil>"
    by (simp add: js_rem_def)
  have "a / 360 \<le> of_int \<lceil>a / 360\<rceil>" "of_int \<lceil>a / 360\<rceil> - 1 < a / 360"
    by linarith+
  then have "a \<le> 360 * of_int \<lceil>a / 360\<rceil>" "360 * of_int \<lceil>a / 360\<rceil> - 360 < a"
    by linarith+
  with eq show "- 360 < js_rem a 360" and "js_rem a 360 \<le> 0" by simp_all
qed

lemma js_rem_360_id:
  assumes "0 \<le> x" "x < 360"
  shows "js_rem x 360 = x"
proof -
  from assms have "\<lfloor>x / 360\<rfloor> = 0" by (simp add: floor_eq_iff)
  with assms show ?thesis by (simp add: js_rem_def)
qed

lemma round_real_numeral_fix:
  "round_real 0 = 0" "round_real 180 = 180" "round_real 360 = 360"
  "round_real (- 180) = - 180" "round_real (- 360) = - 360"
  using round_real_int [of 0] round_real_int [of 180] round_real_int [of 360]
    round_real_int [of "- 180"] round_real_int [of "- 360"]
  by simp_all

lemma round_double_range:
  assumes "a \<le> x" "x \<le> b"
    and "a \<in> {0, - 180, - 360}" "b \<in> {0, 180, 360}"
  shows "\<exists>r. round_double x = Number r \<and> r = round_real x \<and> a \<le> r \<and> r \<le> b"
proof -
  from assms(3) have a: "round_real a = a" "\<bar>a\<bar> \<le> 2 ^ 53"
    by (auto simp: round_real_numeral_fix)
  from assms(4) have b: "round_real b = b" "\<bar>b\<bar> \<le> 2 ^ 53"
    by (auto simp: round_real_numeral_fix)
  from round_double_between [OF assms(1,2) a(1) b(1) a(2) b(2)] show ?thesis .
qed

lemma normalizeDegrees_range:
  "\<exists>r. normalizeDegrees x = Number r \<and> 0 \<le> r \<and> r \<le> 360"
proof (cases x)
  case (Number a)
  show ?thesis
  proof (cases "js_rem a 360 < 0")
    case True
    then have "a < 0" using js_rem_360_nonneg(1) [of a] by (cases "0 \<le> a") auto
    from js_rem_360_neg(1) [OF this] True
    have "0 \<le> js_rem a 360 + 360" "js_rem a 360 + 360 \<le> 360" by simp_all
    from round_double_range [OF this] obtain r where
      "round_double (js_rem a 360 + 360) = Number r" "0 \<le> r" "r \<le> 360" by auto
    with Number True show ?thesis
      by (simp add: normalizeDegrees_def isFinite_def)
  next
    case False
    have "js_rem a 360 < 360"
      using js_rem_360_nonneg(2) [of a] js_rem_360_neg(2) [of a] by (cases "0 \<le> a") auto
    with Number False show ?thesis
      by (simp add: normalizeDegrees_def isFinite_def)
  qed
qed (simp_all add: normalizeDegrees_def isFinite_def)

lemma normalizeDegrees_id:
  assumes "0 \<le> x" "x < 360"
  shows "normalizeDegrees (Number x) = Number x"
  using assms by (simp add: normalizeDegrees_def isFinite_def js_rem_360_id)

subsection \<open>The deck object\<close>

lemma DECK_demo:
  "DECK demo_env ''A'' = Some (CardValue (mk_card ''A'' ''cover'' (Some (Linear ''B'')) None))"
  "DECK demo_env ''B'' = Some (CardValue (mk_card ''B'' ''standard'' (Some (Linear ''D'')) None))"
  "DECK demo_env ''D'' = Some (CardValue (mk_card ''D'' ''decision''
        (Some (Split [\<lparr>label = ''YES'', target_id = ''E''\<rparr>,
                      \<lparr>label = ''NO'', target_id = ''F''\<rparr>])) None))"
  "DECK demo_env ''E'' = Some (CardValue (mk_card ''E'' ''terminal'' None (Some ''complete'')))"
  "DECK demo_env ''F'' = Some (CardValue (mk_card ''F'' ''action'' (Some (SelfLoop ''F'')) None))"
  "DECK demo_env ''G'' =
     Some (CardValue (mk_card ''G'' ''decision''
       (Some (Split [\<lparr>label = ''GO'', target_id = ''Z''\<rparr>])) None))"
  "DECK demo_env ''H'' =
     Some (CardValue (mk_card ''H'' ''terminal'' (Some (Linear ''B'')) (Some ''complete'')))"
  "DECK demo_env ''I'' = Some (CardValue (mk_card ''I'' ''standard'' (Some (Linear ''H'')) None))"
  "DECK demo_env ''Z'' = None"
  "DECK demo_env ''constructor'' = Some InheritedValue"
  "DECK demo_env ''undefined'' = None"
  by (simp_all add: DECK_def rebuildDeckMap_def demo_env_def demo_deck_def mk_card_def
      Object_prototype_keys_def)

lemma start_demo: "currentAlgorithmStartId demo_env = Some ''A''"
  by (simp add: currentAlgorithmStartId_def demo_env_def demo_deck_def mk_card_def)

lemma render_frame:
  "currentId (render env s) = currentId s"
  "history (render env s) = history s"
  "decisionIndex (render env s) = decisionIndex s"
  "decisionRecords (render env s) = decisionRecords s"
  "decisionTrail (render env s) = decisionTrail s"
  "decisionTapped (render env s) = decisionTapped s"
  "carouselIndex (render env s) = carouselIndex s"
  "timerSeconds (render env s) = timerSeconds s"
  "timerRunning (render env s) = timerRunning s"
  "timerInterval (render env s) = timerInterval s"
  "checklistState (render env s) = checklistState s"
  by (simp_all add: render_def syncAnchors_def setKnobPosition_def Let_def split: option.splits)

lemma rebuildDeckMap_key_aux:
  "foldl (\<lambda>m c. m(card_id c \<mapsto> c)) m0 cards k = Some c \<Longrightarrow>
     m0 k = Some c \<or> (card_id c = k \<and> c \<in> set cards)"
proof (induction cards arbitrary: m0)
  case Nil
  then show ?case by simp
next
  case (Cons a cards)
  from Cons.prems
  have "foldl (\<lambda>m c. m(card_id c \<mapsto> c)) (m0(card_id a \<mapsto> a)) cards k = Some c"
    by (simp only: foldl_Cons)
  from Cons.IH [OF this] show ?case
    by (auto split: if_splits)
qed

lemma DECK_card_id:
  assumes "DECK env k = Some (CardValue c)"
  shows "card_id c = k"
proof -
  from assms have "rebuildDeckMap (deck (RUNTIME_ALGORITHM env)) k = Some c"
    by (simp add: DECK_def split: option.splits if_splits)
  with rebuildDeckMap_key_aux [of Map.empty "deck (RUNTIME_ALGORITHM env)" k c]
  show ?thesis by (simp add: rebuildDeckMap_def)
qed



subsection \<open>Advance, rewind and the automation calls\<close>

lemma demo_state_fields:
  "currentId (demo_state c h) = Some c"
  "history (demo_state c h) = map Some h"
  "decisionIndex (demo_state c h) = 0"
  "decisionRecords (demo_state c h) = Map.empty"
  "decisionTrail (demo_state c h) = []"
  "timerSeconds (demo_state c h) = 42"
  "timerRunning (demo_state c h) = True"
  by (simp_all add: demo_state_def)

lemma propertyKey_Some [simp]: "propertyKey (Some k) = k"
  by (simp add: propertyKey_def)

lemma advance_commit_False:
  assumes "fst (advance_commit env nextId s) = False"
  shows "advance_commit env nextId s = (False, s)"
proof (cases nextId)
  case None
  then show ?thesis by (simp add: advance_commit_def)
next
  case (Some nid)
  show ?thesis
  proof (cases "nid = [] \<or> DECK env nid = None")
    case True
    with Some show ?thesis by (auto simp: advance_commit_def)
  next
    case False
    then obtain nc where "nid \<noteq> []" "DECK env nid = Some nc" by auto
    with Some have "fst (advance_commit env nextId s) = True"
      by (simp add: advance_commit_def Let_def)
    with assms show ?thesis by simp
  qed
qed

lemma advance_resolve_frame:
  assumes "advance_resolve env src confirmed crd s = Some (nextId, s')"
  shows "currentId s' = currentId s" "history s' = history s"
    "decisionIndex s' = decisionIndex s" "checklistState s' = checklistState s"
    "timerSeconds s' = timerSeconds s" "timerRunning s' = timerRunning s"
    "decisionTapped s' = decisionTapped s" "carouselIndex s' = carouselIndex s"
  using assms
  by (auto simp: advance_resolve_def Let_def split: option.splits Transition.splits if_splits)

lemma advance_cases:
  obtains (stay) "advance env options s = (False, s)"
  | (resolved) crd src confirmed nextId s' where
      "DECK env (propertyKey (currentId s)) = Some (CardValue crd)"
      "status crd \<noteq> Some ''complete''"
      "advance_resolve env src confirmed crd s = Some (nextId, s')"
      "advance env options s = advance_commit env nextId s'"
      "src = (case source options of None \<Rightarrow> ''ui'' | Some x \<Rightarrow> if x \<noteq> [] then x else ''ui'')"
      "confirmed = (splitConfirmed options = Some True \<or> src = ''automation'')"
proof (cases "\<exists>crd. DECK env (propertyKey (currentId s)) = Some (CardValue crd)")
  case False
  then have "advance env options s = (False, s)"
    by (simp add: advance_def Let_def split: option.splits DeckValue.splits)
  then show ?thesis by (rule stay)
next
  case True
  then obtain crd where Some: "DECK env (propertyKey (currentId s)) = Some (CardValue crd)"
    by blast
  define src where "src = (case source options of None \<Rightarrow> ''ui'' | Some x \<Rightarrow> if x \<noteq> [] then x else ''ui'')"
  define confirmed where "confirmed = (splitConfirmed options = Some True \<or> src = ''automation'')"
  show ?thesis
  proof (cases "status crd = Some ''complete''")
    case True
    with Some have "advance env options s = (False, s)"
      by (simp add: advance_def Let_def)
    then show ?thesis by (rule stay)
  next
    case notc: False
    show ?thesis
    proof (cases "advance_resolve env src confirmed crd s")
      case None
      with Some notc have "advance env options s = (False, s)"
        by (simp add: advance_def Let_def src_def confirmed_def)
      then show ?thesis by (rule stay)
    next
      case (Some r)
      obtain nextId s' where r: "r = (nextId, s')" by (cases r)
      from Some r \<open>DECK env (propertyKey (currentId s)) = Some (CardValue crd)\<close> notc
      have "advance env options s = advance_commit env nextId s'"
        by (simp add: advance_def Let_def src_def confirmed_def)
      with Some r \<open>DECK env (propertyKey (currentId s)) = Some (CardValue crd)\<close> notc
      show ?thesis
        using resolved [of crd src confirmed nextId s'] src_def confirmed_def by simp
    qed
  qed
qed

lemma advance_false_position:
  assumes "fst (advance env options s) = False"
  shows "currentId (snd (advance env options s)) = currentId s"
    and "history (snd (advance env options s)) = history s"
proof -
  have "currentId (snd (advance env options s)) = currentId s
        \<and> history (snd (advance env options s)) = history s"
  proof (cases rule: advance_cases [of env options s])
    case stay
    then show ?thesis by simp
  next
    case (resolved crd src confirmed nextId s')
    from assms resolved(4) have "advance_commit env nextId s' = (False, s')"
      by (simp add: advance_commit_False)
    with resolved(4) advance_resolve_frame [OF resolved(3)] show ?thesis by simp
  qed
  then show "currentId (snd (advance env options s)) = currentId s"
    and "history (snd (advance env options s)) = history s" by simp_all
qed

lemma rememberedDecisionIndexForCard_cong:
  "decisionRecords s' = decisionRecords s \<Longrightarrow> decisionIndex s' = decisionIndex s \<Longrightarrow>
     rememberedDecisionIndexForCard s' c = rememberedDecisionIndexForCard s c"
  by (simp add: rememberedDecisionIndexForCard_def cong: option.case_cong)

lemma advance_commit_moved:
  assumes "nid \<noteq> []" "DECK env nid = Some nc"
  shows "fst (advance_commit env (Some nid) s) = True"
    and "currentId (snd (advance_commit env (Some nid) s)) = Some nid"
    and "history (snd (advance_commit env (Some nid) s)) =
           (if Some nid \<noteq> currentId s then history s @ [currentId s] else history s)"
    and "decisionIndex (snd (advance_commit env (Some nid) s)) =
           (if isSplitDecisionCard (Some nc) then rememberedDecisionIndexForCard s nc else 0)"
    and "decisionTapped (snd (advance_commit env (Some nid) s)) = False"
    and "carouselIndex (snd (advance_commit env (Some nid) s)) = 0"
    and "timerSeconds (snd (advance_commit env (Some nid) s)) = timerSeconds s"
    and "timerRunning (snd (advance_commit env (Some nid) s)) =
           (timerRunning s \<or> autoStartCard env = None \<or> autoStartCard env = Some []
            \<or> autoStartCard env = Some nid)"
    and "checklistState (snd (advance_commit env (Some nid) s)) = checklistState s"
    and "decisionRecords (snd (advance_commit env (Some nid) s)) = decisionRecords s"
    and "decisionTrail (snd (advance_commit env (Some nid) s)) = decisionTrail s"
  using assms
  by (auto simp: advance_commit_def Let_def render_frame startTimer_def
      rememberedDecisionIndexForCard_def cong: option.case_cong)





lemma isSplitDecisionCard_split:
  assumes "isSplitDecisionCard v"
  shows "\<exists>crd opts. v = Some (CardValue crd) \<and> transitions crd = Some (Split opts) \<and> opts \<noteq> []"
proof (cases v)
  case None
  with assms show ?thesis by (simp add: isSplitDecisionCard_def)
next
  case (Some w)
  show ?thesis
  proof (cases w)
    case InheritedValue
    with Some assms show ?thesis by (simp add: isSplitDecisionCard_def)
  next
    case (CardValue crd)
    show ?thesis
    proof (cases "transitions crd")
      case None
      with Some CardValue assms show ?thesis by (simp add: isSplitDecisionCard_def)
    next
      case tr: (Some t)
      with Some CardValue assms show ?thesis
        by (cases t) (simp_all add: isSplitDecisionCard_def)
    qed
  qed
qed

subsection \<open>The decision index stays normalised\<close>

lemma normalizeDecisionIndexForCard_idem:
  "normalizeDecisionIndexForCard c (Number (of_int (normalizeDecisionIndexForCard c x))) =
     normalizeDecisionIndexForCard c x"
  by (auto simp: normalizeDecisionIndexForCard_def isFinite_def Math_floor_def Let_def
      split: option.splits Transition.splits DeckValue.splits)

lemma normalizeDecisionIndexForCard_zero:
  "normalizeDecisionIndexForCard c (Number 0) = 0"
  by (auto simp: normalizeDecisionIndexForCard_def isFinite_def Math_floor_def Let_def
      split: option.splits Transition.splits DeckValue.splits)

lemma normalizeDecisionIndexForCard_not_split:
  assumes "\<not> isSplitDecisionCard c"
  shows "normalizeDecisionIndexForCard c x = 0"
proof (cases c)
  case None
  then show ?thesis by (simp add: normalizeDecisionIndexForCard_def)
next
  case (Some v)
  show ?thesis
  proof (cases v)
    case InheritedValue
    with Some show ?thesis by (simp add: normalizeDecisionIndexForCard_def)
  next
    case (CardValue crd)
    show ?thesis
    proof (cases "transitions crd")
      case None
      with Some CardValue show ?thesis by (simp add: normalizeDecisionIndexForCard_def)
    next
      case tr: (Some t)
      with Some CardValue assms show ?thesis
        by (cases t) (simp_all add: normalizeDecisionIndexForCard_def isSplitDecisionCard_def)
    qed
  qed
qed

lemma decisionIndex_normalised_zero:
  "decisionIndex s = 0 \<Longrightarrow> decisionIndex_normalised env s"
  by (simp add: decisionIndex_normalised_def normalizeDecisionIndexForCard_zero [simplified])

lemma decisionIndex_normalised_arrival:
  assumes "decisionIndex s' =
             (case DECK env (propertyKey (currentId s')) of
                None \<Rightarrow> 0
              | Some c \<Rightarrow>
                  if isSplitDecisionCard (Some c) then rememberedDecisionIndexForCard s0 c else 0)"
  shows "decisionIndex_normalised env s'"
proof (cases "DECK env (propertyKey (currentId s'))")
  case None
  with assms show ?thesis
    by (simp add: decisionIndex_normalised_zero)
next
  case (Some c)
  show ?thesis
  proof (cases "isSplitDecisionCard (Some c)")
    case True
    with assms Some show ?thesis
      by (simp add: decisionIndex_normalised_def rememberedDecisionIndexForCard_def
          normalizeDecisionIndexForCard_idem)
  next
    case False
    with assms Some show ?thesis
      by (simp add: decisionIndex_normalised_zero)
  qed
qed

lemma decisionIndex_normalised_applyAlgorithm:
  "decisionIndex_normalised env (applyAlgorithm env s)"
  by (rule decisionIndex_normalised_zero)
     (simp add: applyAlgorithm_def Let_def render_frame resetTimerState_def)

lemma decisionIndex_normalised_advance:
  assumes "decisionIndex_normalised env s"
  shows "decisionIndex_normalised env (snd (advance env options s))"
proof (cases rule: advance_cases [of env options s])
  case stay
  with assms show ?thesis by simp
next
  case (resolved crd src confirmed nextId s')
  note fr = advance_resolve_frame [OF resolved(3)]
  show ?thesis
  proof (cases "fst (advance_commit env nextId s')")
    case False
    then have "advance_commit env nextId s' = (False, s')"
      by (simp add: advance_commit_False)
    with resolved(4) fr assms show ?thesis
      by (simp add: decisionIndex_normalised_def)
  next
    case True
    then obtain nid nc where n: "nextId = Some nid" "nid \<noteq> []" "DECK env nid = Some nc"
      by (auto simp: advance_commit_def split: option.splits if_splits)
    from advance_commit_moved(2,4) [OF n(2,3), of s'] resolved(4) n
    show ?thesis
      by (intro decisionIndex_normalised_arrival [where ?s0.0 = s']) simp
  qed
qed

lemma rewind_moved:
  assumes "history s \<noteq> []"
  shows "fst (rewind env s)"
    and "currentId (snd (rewind env s)) = last (history s)"
    and "history (snd (rewind env s)) = butlast (history s)"
    and "decisionIndex (snd (rewind env s)) =
           (case DECK env (propertyKey (last (history s))) of
              None \<Rightarrow> 0
            | Some c \<Rightarrow>
                if isSplitDecisionCard (Some c) then rememberedDecisionIndexForCard s c else 0)"
    and "checklistState (snd (rewind env s)) = checklistState s"
  using assms
  by (auto simp: rewind_def Let_def render_frame rememberedDecisionIndexForCard_def
      split: option.splits cong: option.case_cong)

lemma decisionIndex_normalised_rewind:
  assumes "decisionIndex_normalised env s"
  shows "decisionIndex_normalised env (snd (rewind env s))"
proof (cases "history s = []")
  case True
  with assms show ?thesis by (simp add: rewind_def)
next
  case False
  from rewind_moved(2,4) [OF False, of env] show ?thesis
    by (intro decisionIndex_normalised_arrival [where ?s0.0 = s]) simp
qed

lemma decisionIndex_normalised_setCurrentCardForAutomation:
  assumes "decisionIndex_normalised env s"
  shows "decisionIndex_normalised env (snd (setCurrentCardForAutomation env cardId s))"
proof (cases "DECK env (propertyKey cardId)")
  case None
  with assms show ?thesis by (simp add: setCurrentCardForAutomation_def)
next
  case (Some v)
  show ?thesis
  proof (cases v)
    case InheritedValue
    with Some show ?thesis
      by (intro decisionIndex_normalised_zero)
         (simp add: setCurrentCardForAutomation_def Let_def render_frame resetTimerState_def
            isSplitDecisionCard_def)
  next
    case (CardValue crd)
    with Some DECK_card_id [of env "propertyKey cardId" crd] show ?thesis
      by (intro decisionIndex_normalised_arrival [where ?s0.0 = s])
         (auto simp: setCurrentCardForAutomation_def Let_def render_frame resetTimerState_def
            rememberedDecisionIndexForCard_def value_id_def cong: option.case_cong)
  qed
qed

lemma decisionIndex_normalised_selectDecisionOption:
  assumes "decisionIndex_normalised env s"
  shows "decisionIndex_normalised env (snd (selectDecisionOption env index s))"
proof (cases "\<exists>crd opts. DECK env (propertyKey (currentId s)) = Some (CardValue crd)
                \<and> transitions crd = Some (Split opts)")
  case True
  then show ?thesis
    by (auto simp: decisionIndex_normalised_def selectDecisionOption_def Let_def render_frame
        normalizeDecisionIndexForCard_idem)
next
  case False
  then have "snd (selectDecisionOption env index s) = s"
    by (auto simp: selectDecisionOption_def split: option.splits Transition.splits
        DeckValue.splits)
  with assms show ?thesis by simp
qed

subsection \<open>The forward walk\<close>

lemma computeForwardPath_loop_stop:
  assumes "cardId = None \<or> cardId = Some [] \<or>
           (\<exists>cid. cardId = Some cid \<and> (DECK env cid = None \<or> cid \<in> visited))"
  shows "computeForwardPath_loop env s cardId visited path = path"
  using assms
  by (subst computeForwardPath_loop.simps) (auto split: option.splits)

lemma computeForwardPath_loop_step:
  assumes "cid \<noteq> []" "DECK env cid = Some v" "cid \<notin> visited"
  shows "\<exists>nxo. \<forall>path. computeForwardPath_loop env s (Some cid) visited path =
           (case nxo of
              None \<Rightarrow> path @ [cid]
            | Some nx \<Rightarrow> computeForwardPath_loop env s nx (insert cid visited) (path @ [cid]))"
proof (cases v)
  case InheritedValue
  with assms have "\<forall>path. computeForwardPath_loop env s (Some cid) visited path =
      (case None of None \<Rightarrow> path @ [cid]
       | Some nx \<Rightarrow> computeForwardPath_loop env s nx (insert cid visited) (path @ [cid]))"
    by (subst computeForwardPath_loop.simps) simp
  then show ?thesis by blast
next
  case (CardValue crd)
  note cv = this
  show ?thesis
  proof (cases "transitions crd")
    case None
    with assms cv have "\<forall>path. computeForwardPath_loop env s (Some cid) visited path =
        (case None of None \<Rightarrow> path @ [cid]
         | Some nx \<Rightarrow> computeForwardPath_loop env s nx (insert cid visited) (path @ [cid]))"
      by (subst computeForwardPath_loop.simps) simp
    then show ?thesis by blast
  next
    case (Some t)
    show ?thesis
    proof (cases t)
      case (Linear n)
      with Some assms cv have "\<forall>path. computeForwardPath_loop env s (Some cid) visited path =
        (case Some (Some n) of None \<Rightarrow> path @ [cid]
         | Some nx \<Rightarrow> computeForwardPath_loop env s nx (insert cid visited) (path @ [cid]))"
        by (subst computeForwardPath_loop.simps) simp
      then show ?thesis by blast
    next
      case (Split opts)
      define nx where "nx =
        (case decisionRecords s (card_id crd) of
           Some idx \<Rightarrow> (if 0 \<le> idx \<and> nat idx < length opts
                         then Some (target_id (opts ! nat idx)) else None)
         | None \<Rightarrow> longestBranchTarget env crd (insert cid visited))"
      from Split Some assms cv
      have "\<forall>path. computeForwardPath_loop env s (Some cid) visited path =
        (case Some nx of None \<Rightarrow> path @ [cid]
         | Some nx \<Rightarrow> computeForwardPath_loop env s nx (insert cid visited) (path @ [cid]))"
        by (subst computeForwardPath_loop.simps) (simp add: nx_def split: option.splits)
      then show ?thesis by blast
    next
      case (SelfLoop n)
      show ?thesis
      proof (cases "n = card_id crd")
        case True
        with SelfLoop Some assms cv
        have "\<forall>path. computeForwardPath_loop env s (Some cid) visited path =
          (case None of None \<Rightarrow> path @ [cid]
           | Some nx \<Rightarrow> computeForwardPath_loop env s nx (insert cid visited) (path @ [cid]))"
          by (subst computeForwardPath_loop.simps) simp
        then show ?thesis by blast
      next
        case False
        with SelfLoop Some assms cv
        have "\<forall>path. computeForwardPath_loop env s (Some cid) visited path =
          (case Some (Some n) of None \<Rightarrow> path @ [cid]
           | Some nx \<Rightarrow> computeForwardPath_loop env s nx (insert cid visited) (path @ [cid]))"
          by (subst computeForwardPath_loop.simps) simp
        then show ?thesis by blast
      qed
    qed
  qed
qed

lemma computeForwardPath_loop_distinct:
  "distinct path \<Longrightarrow> set path \<subseteq> visited \<Longrightarrow>
     distinct (computeForwardPath_loop env s cardId visited path)"
proof (induction "card (dom (DECK env) - visited)" arbitrary: cardId visited path rule: less_induct)
  case less
  show ?case
  proof (cases "cardId = None \<or> cardId = Some [] \<or>
           (\<exists>cid. cardId = Some cid \<and> (DECK env cid = None \<or> cid \<in> visited))")
    case True
    with less.prems show ?thesis by (simp add: computeForwardPath_loop_stop)
  next
    case False
    then obtain cid v where c: "cardId = Some cid" "cid \<noteq> []" "DECK env cid = Some v"
      "cid \<notin> visited" by (cases cardId) auto
    from computeForwardPath_loop_step [OF c(2,3,4), of s] obtain nxo where
      st: "\<And>p. computeForwardPath_loop env s (Some cid) visited p =
           (case nxo of
              None \<Rightarrow> p @ [cid]
            | Some nx \<Rightarrow> computeForwardPath_loop env s nx (insert cid visited) (p @ [cid]))"
      by blast
    have m: "card (dom (DECK env) - insert cid visited) < card (dom (DECK env) - visited)"
      using c by (intro card_unvisited_less) (auto simp: finite_dom_DECK)
    from less.prems c(4) have d: "distinct (path @ [cid])"
      "set (path @ [cid]) \<subseteq> insert cid visited" by auto
    show ?thesis
    proof (cases nxo)
      case None
      with st [of path] c(1) d show ?thesis by simp
    next
      case (Some nx)
      from less.hyps [OF m d, of nx] st [of path] Some c(1) show ?thesis by simp
    qed
  qed
qed


lemma mapAnchors_ids: "map anchor_id (mapAnchors arc n i xs) = xs"
  by (induction xs arbitrary: i) simp_all

lemma mapAnchors_nth:
  "j < length xs \<Longrightarrow>
     anchor_angle (mapAnchors arc n i xs ! j) =
       angleOnArc arc (num_div (Number (real (i + j))) (num_sub (Number (real n)) (Number 1)))"
proof (induction xs arbitrary: i j)
  case Nil
  then show ?case by simp
next
  case (Cons x xs)
  show ?case
  proof (cases j)
    case 0
    then show ?thesis by simp
  next
    case (Suc k)
    with Cons.prems Cons.IH [of k "Suc i"] show ?thesis by simp
  qed
qed

lemma arc_demo: "getCurrentWheelArc demo_env = DEFAULT_WHEEL_ARC"
  by (simp add: getCurrentWheelArc_def normalizeWheelArc_def demo_env_def)

lemma path_demo:
  "computeForwardPath demo_env (demo_state ''A'' []) = [''A'', ''B'', ''D'', ''E'']"
  by (simp add: computeForwardPath_def start_demo computeForwardPath_loop.simps DECK_demo
      mk_card_def demo_state_fields longestBranchTarget_def countPathLength_def
      countPathLength_loop.simps Let_def)

subsection \<open>Branch lengths and the longest branch\<close>











subsection \<open>The example decks with branches\<close>














subsection \<open>The step of the knob\<close>

lemma round_double_Number:
  "round_double x = Number y \<Longrightarrow> y = round_real x"
  by (simp add: round_double_def split: if_splits)

lemma round_real_error_le:
  assumes "\<bar>x\<bar> < 2 powi (e + 1)" "- 1022 \<le> e"
  shows "\<bar>round_real x - x\<bar> \<le> 2 powi (e - 53)"
proof -
  from expo_le [OF assms] have "expo x - 53 \<le> e - 53" by simp
  from two_powi_mono [OF this] round_real_error [of x] show ?thesis by linarith
qed

lemma knob_diff_close:
  assumes "0 \<le> t" "t \<le> 360" "0 \<le> l" "l \<le> 360"
  defines "diff0 \<equiv> num_sub (Number t) (Number l)"
  defines "diff1 \<equiv> (if num_less (Number 180) diff0 then num_sub diff0 (Number 360) else diff0)"
  defines "diff \<equiv> (if num_less diff1 (Number (- 180)) then num_add diff1 (Number 360) else diff1)"
  shows "\<exists>d. diff = Number d \<and> \<bar>d\<bar> \<le> 180
           \<and> (\<exists>k \<in> {- 1, 0, 1 :: int}. \<bar>d - (t - l + 360 * of_int k)\<bar> \<le> 2 powi (- 44))"
proof -
  from assms(1-4) have "- 360 \<le> t - l" "t - l \<le> 360" by simp_all
  from round_double_range [OF this] obtain d0 where
    d0: "round_double (t - l) = Number d0" "d0 = round_real (t - l)" "- 360 \<le> d0" "d0 \<le> 360"
    by auto
  then have diff0: "diff0 = Number d0" by (simp add: diff0_def num_sub_def)
  from assms(1-4) have "\<bar>t - l\<bar> < 2 powi (8 + 1)" by simp
  from round_real_error_le [OF this] d0(2) have e0: "\<bar>d0 - (t - l)\<bar> \<le> 2 powi (- 45)" by simp
  have small: "(2::real) powi (- 45) + 2 powi (- 46) \<le> 2 powi (- 44)"
    "(2::real) powi (- 45) \<le> 2 powi (- 44)" by simp_all
  show ?thesis
  proof (cases "180 < d0")
    case True
    with d0 have "- 180 \<le> d0 - 360" "d0 - 360 \<le> 0" by simp_all
    from round_double_range [OF this] obtain d1 where
      d1: "round_double (d0 - 360) = Number d1" "d1 = round_real (d0 - 360)"
        "- 180 \<le> d1" "d1 \<le> 0" by auto
    with True diff0 have "diff1 = Number d1" by (simp add: diff1_def num_sub_def)
    with d1 have diff: "diff = Number d1" by (simp add: diff_def)
    from True d0 have "\<bar>d0 - 360\<bar> < 2 powi (7 + 1)" by simp
    from round_real_error_le [OF this] d1(2) have "\<bar>d1 - (d0 - 360)\<bar> \<le> 2 powi (- 46)" by simp
    with e0 small(1) have "\<bar>d1 - (t - l - 360)\<bar> \<le> 2 powi (- 44)"
      by linarith
    then have "\<bar>d1 - (t - l + 360 * of_int (- 1 :: int))\<bar> \<le> 2 powi (- 44)"
      by simp
    then have "\<exists>k \<in> {- 1, 0, 1 :: int}. \<bar>d1 - (t - l + 360 * of_int k)\<bar> \<le> 2 powi (- 44)"
      by (rule bexI [of _ "- 1"]) simp
    moreover from d1 have "\<bar>d1\<bar> \<le> 180" by simp
    ultimately show ?thesis using diff by (intro exI [of _ d1] conjI)
  next
    case False
    with diff0 have diff1: "diff1 = Number d0" by (simp add: diff1_def)
    show ?thesis
    proof (cases "d0 < - 180")
      case True
      with d0 have "0 \<le> d0 + 360" "d0 + 360 \<le> 180" by simp_all
      from round_double_range [OF this] obtain d where
        d: "round_double (d0 + 360) = Number d" "d = round_real (d0 + 360)"
          "0 \<le> d" "d \<le> 180" by auto
      with True diff1 have diff: "diff = Number d" by (simp add: diff_def)
      from True d0 have "\<bar>d0 + 360\<bar> < 2 powi (7 + 1)" by simp
      from round_real_error_le [OF this] d(2) have "\<bar>d - (d0 + 360)\<bar> \<le> 2 powi (- 46)" by simp
      with e0 small(1) have "\<bar>d - (t - l + 360)\<bar> \<le> 2 powi (- 44)"
        by linarith
      then have "\<bar>d - (t - l + 360 * of_int (1 :: int))\<bar> \<le> 2 powi (- 44)"
        by simp
      then have "\<exists>k \<in> {- 1, 0, 1 :: int}. \<bar>d - (t - l + 360 * of_int k)\<bar> \<le> 2 powi (- 44)"
        by (rule bexI [of _ 1]) simp
      moreover from d have "\<bar>d\<bar> \<le> 180" by simp
      ultimately show ?thesis using diff by (intro exI [of _ d] conjI)
    next
      case lo: False
      with diff1 have diff: "diff = Number d0" by (simp add: diff_def)
      from e0 small(2) have "\<bar>d0 - (t - l)\<bar> \<le> 2 powi (- 44)"
        by linarith
      then have "\<bar>d0 - (t - l + 360 * of_int (0 :: int))\<bar> \<le> 2 powi (- 44)"
        by simp
      then have "\<exists>k \<in> {- 1, 0, 1 :: int}. \<bar>d0 - (t - l + 360 * of_int k)\<bar> \<le> 2 powi (- 44)"
        by (rule bexI [of _ 0]) simp
      moreover from False lo have "\<bar>d0\<bar> \<le> 180" by simp
      ultimately show ?thesis using diff by (intro exI [of _ d0] conjI)
    qed
  qed
qed

lemma normalizeDegrees_close:
  "\<exists>l. normalizeDegrees (Number v) = Number l \<and> 0 \<le> l \<and> l \<le> 360
       \<and> (\<exists>k::int. \<bar>l - (v + 360 * of_int k)\<bar> \<le> 2 powi (- 45))"
proof (cases "js_rem v 360 < 0")
  case True
  then have neg: "v / 360 < 0" using js_rem_360_nonneg(1) [of v] by (cases "0 \<le> v") auto
  then have "v < 0" by simp
  from js_rem_360_neg(1) [OF this] True
  have r: "0 \<le> js_rem v 360 + 360" "js_rem v 360 + 360 \<le> 360" by simp_all
  from round_double_range [OF this] obtain l where
    l: "round_double (js_rem v 360 + 360) = Number l" "l = round_real (js_rem v 360 + 360)"
      "0 \<le> l" "l \<le> 360" by auto
  from r have "\<bar>js_rem v 360 + 360\<bar> < 2 powi (8 + 1)" by simp
  from round_real_error_le [OF this] l(2)
  have "\<bar>l - (js_rem v 360 + 360)\<bar> \<le> 2 powi (- 45)" by simp
  moreover have "js_rem v 360 + 360 = v + 360 * of_int (1 - \<lceil>v / 360\<rceil>)"
    using neg by (simp add: js_rem_def)
  ultimately have "\<bar>l - (v + 360 * of_int (1 - \<lceil>v / 360\<rceil>))\<bar> \<le> 2 powi (- 45)"
    by (simp only:)
  then have "\<exists>k::int. \<bar>l - (v + 360 * of_int k)\<bar> \<le> 2 powi (- 45)"
    by (rule exI)
  with l True show ?thesis
    by (simp add: normalizeDegrees_def isFinite_def)
next
  case False
  have lt: "js_rem v 360 < 360"
    using js_rem_360_nonneg(2) [of v] js_rem_360_neg(2) [of v] by (cases "0 \<le> v") auto
  define q :: int where "q = - (if v / 360 < 0 then \<lceil>v / 360\<rceil> else \<lfloor>v / 360\<rfloor>)"
  have "js_rem v 360 = v + 360 * of_int q"
    by (simp add: js_rem_def q_def)
  then have "\<bar>js_rem v 360 - (v + 360 * of_int q)\<bar> = 0" by simp
  moreover have "(0::real) \<le> 2 powi (- 45)" by simp
  ultimately have "\<bar>js_rem v 360 - (v + 360 * of_int q)\<bar> \<le> 2 powi (- 45)"
    by (simp only:)
  then have "\<exists>k::int. \<bar>js_rem v 360 - (v + 360 * of_int k)\<bar> \<le> 2 powi (- 45)"
    by (rule exI)
  with False lt show ?thesis
    by (simp add: normalizeDegrees_def isFinite_def)
qed

lemma setKnobPosition_step:
  assumes "dom_knob env" "visualAngle (wheel s) = Some (Number v)"
  shows "\<exists>t l d. normalizeDegrees deg = Number t \<and> normalizeDegrees (Number v) = Number l
           \<and> 0 \<le> l \<and> l \<le> 360
           \<and> (\<exists>k::int. \<bar>l - (v + 360 * of_int k)\<bar> \<le> 2 powi (- 45))
           \<and> \<bar>d\<bar> \<le> 180
           \<and> (\<exists>k \<in> {- 1, 0, 1 :: int}. \<bar>d - (t - l + 360 * of_int k)\<bar> \<le> 2 powi (- 44))
           \<and> visualAngle (wheel (setKnobPosition env deg s)) = Some (round_double (v + d))"
proof -
  from normalizeDegrees_range [of deg] obtain t where
    t: "normalizeDegrees deg = Number t" "0 \<le> t" "t \<le> 360" by blast
  from normalizeDegrees_close [of v] obtain l where
    l: "normalizeDegrees (Number v) = Number l" "0 \<le> l" "l \<le> 360"
      "\<exists>k::int. \<bar>l - (v + 360 * of_int k)\<bar> \<le> 2 powi (- 45)" by blast
  from knob_diff_close [OF t(2,3) l(2,3)] obtain d where
    d: "(if num_less
            (if num_less (Number 180) (num_sub (Number t) (Number l))
             then num_sub (num_sub (Number t) (Number l)) (Number 360)
             else num_sub (Number t) (Number l))
            (Number (- 180))
         then num_add
            (if num_less (Number 180) (num_sub (Number t) (Number l))
             then num_sub (num_sub (Number t) (Number l)) (Number 360)
             else num_sub (Number t) (Number l))
            (Number 360)
         else (if num_less (Number 180) (num_sub (Number t) (Number l))
               then num_sub (num_sub (Number t) (Number l)) (Number 360)
               else num_sub (Number t) (Number l))) = Number d"
      "\<bar>d\<bar> \<le> 180"
      "\<exists>k \<in> {- 1, 0, 1 :: int}. \<bar>d - (t - l + 360 * of_int k)\<bar> \<le> 2 powi (- 44)"
    by blast
  have "visualAngle (wheel (setKnobPosition env deg s)) = Some (round_double (v + d))"
    using assms t(1) l(1) d(1) by (simp add: setKnobPosition_def Let_def split del: if_split cong: if_cong)
  with t(1) l d(2,3) show ?thesis by blast
qed

lemma setKnobPosition_not_finite:
  assumes "dom_knob env" "visualAngle (wheel s) = Some v" "\<not> isFinite v"
  shows "visualAngle (wheel (setKnobPosition env deg s)) = Some v"
proof -
  from normalizeDegrees_range [of deg] obtain t where
    t: "normalizeDegrees deg = Number t" "0 \<le> t" "t \<le> 360" by blast
  from assms(3) have l: "normalizeDegrees v = Number 0" by (simp add: normalizeDegrees_def)
  have z: "(0::real) \<le> 0" "(0::real) \<le> 360" by simp_all
  from knob_diff_close [OF t(2,3) z] obtain d where
    d: "(if num_less
            (if num_less (Number 180) (num_sub (Number t) (Number 0))
             then num_sub (num_sub (Number t) (Number 0)) (Number 360)
             else num_sub (Number t) (Number 0))
            (Number (- 180))
         then num_add
            (if num_less (Number 180) (num_sub (Number t) (Number 0))
             then num_sub (num_sub (Number t) (Number 0)) (Number 360)
             else num_sub (Number t) (Number 0))
            (Number 360)
         else (if num_less (Number 180) (num_sub (Number t) (Number 0))
               then num_sub (num_sub (Number t) (Number 0)) (Number 360)
               else num_sub (Number t) (Number 0))) = Number d"
    by blast
  from assms(3) have "num_add v (Number d) = v"
    by (cases v) (simp_all add: isFinite_def)
  with assms t(1) l d show ?thesis
    by (simp add: setKnobPosition_def Let_def split del: if_split cong: if_cong)
qed

lemma rounded_sum_bound:
  assumes "round_double (a + d) = Number b" "\<bar>d\<bar> \<le> 180"
  shows "\<bar>b - a\<bar> \<le> 180 + (\<bar>a\<bar> + 181) / 2 ^ 53"
proof -
  from round_double_Number [OF assms(1)] have b: "b = round_real (a + d)" .
  have "\<bar>b - (a + d)\<bar> \<le> 2 powi (expo (a + d) - 53)"
    unfolding b by (rule round_real_error)
  also have "\<dots> \<le> \<bar>a + d\<bar> / 2 ^ 53 + 2 powi (- 1075)" by (rule half_ulp_bound)
  also have "\<dots> \<le> (\<bar>a\<bar> + 180) / 2 ^ 53 + 2 powi (- 1075)"
    using assms(2) by (simp add: divide_right_mono)
  also have "(2::real) powi (- 1075) \<le> 2 powi (- 53)" by (rule two_powi_mono) simp
  then have "(\<bar>a\<bar> + 180) / 2 ^ 53 + 2 powi (- 1075) \<le> (\<bar>a\<bar> + 180) / 2 ^ 53 + 2 powi (- 53)"
    by simp
  also have "(\<bar>a\<bar> + 180) / 2 ^ 53 + 2 powi (- 53) = (\<bar>a\<bar> + 181) / 2 ^ 53"
    by (simp add: power_int_minus field_simps)
  finally have "\<bar>b - (a + d)\<bar> \<le> (\<bar>a\<bar> + 181) / 2 ^ 53" .
  with assms(2) show ?thesis by linarith
qed

lemma setKnobPosition_bound:
  assumes "visualAngle (wheel s) = Some (Number a)"
    and "visualAngle (wheel (setKnobPosition env deg s)) = Some (Number b)"
  shows "\<bar>b - a\<bar> \<le> 180 + (\<bar>a\<bar> + 181) / 2 ^ 53"
proof (cases "dom_knob env")
  case True
  from setKnobPosition_step [OF True assms(1), of deg] obtain d where
    d: "\<bar>d\<bar> \<le> 180"
      "visualAngle (wheel (setKnobPosition env deg s)) = Some (round_double (a + d))" by blast
  from d(2) assms(2) have "round_double (a + d) = Number b" by simp
  from rounded_sum_bound [OF this d(1)] show ?thesis .
next
  case False
  with assms have "b = a" by (simp add: setKnobPosition_def)
  then show ?thesis by simp
qed

lemma setKnobPositions_bound:
  "i < length degs \<Longrightarrow>
     visualAngle (wheel ((s # setKnobPositions env degs s) ! i)) = Some (Number a) \<Longrightarrow>
     visualAngle (wheel ((s # setKnobPositions env degs s) ! Suc i)) = Some (Number b) \<Longrightarrow>
     \<bar>b - a\<bar> \<le> 180 + (\<bar>a\<bar> + 181) / 2 ^ 53"
proof (induction degs arbitrary: s i)
  case Nil
  then show ?case by simp
next
  case (Cons d ds)
  show ?case
  proof (cases i)
    case 0
    with Cons.prems have "visualAngle (wheel s) = Some (Number a)"
      "visualAngle (wheel (setKnobPosition env d s)) = Some (Number b)" by simp_all
    then show ?thesis by (rule setKnobPosition_bound)
  next
    case (Suc j)
    with Cons.prems Cons.IH [of j "setKnobPosition env d s"] show ?thesis
      by simp
  qed
qed

lemma demo_visual: "visualAngle (wheel (demo_state c h)) = Some (Number 330)"
  by (simp add: demo_state_def)

lemma demo_knob: "dom_knob demo_env"
  by (simp add: demo_env_def)

subsection \<open>Evaluations in double arithmetic\<close>

lemma round_double_numeral:
  "(numeral n :: int) < 2 ^ 53 \<Longrightarrow> round_double (numeral n) = Number (numeral n)"
  "(numeral n :: int) < 2 ^ 53 \<Longrightarrow> round_double (- numeral n) = Number (- numeral n)"
  "round_double 0 = Number 0"
  "round_double 1 = Number 1"
  using round_double_int [of "numeral n"] round_double_int [of "- numeral n"]
    round_double_int [of 0] round_double_int [of 1]
  by simp_all

lemma knob_run_integers: "map (\<lambda>x. visualAngle (wheel x))
       (demo_state ''A'' [] # setKnobPositions demo_env [Number 10, Number 200, Number 350] (demo_state ''A'' []))
     = [Some (Number 330), Some (Number 370), Some (Number 200), Some (Number 350)]"
  by (simp add: setKnobPosition_def normalizeDegrees_def isFinite_def js_rem_def num_sub_def
      round_double_numeral demo_visual demo_knob Let_def)

lemma ev_109_a:
  "round_double (- (15537418714428211 / 70368744177664)) =
     Number (- (3884354678607053 / 17592186044416))"
  using round_double_eval [where e = 7 and x = "- (15537418714428211 / 70368744177664)"]
  by (simp add: rne_def)

lemma ev_109_b:
  "round_double (2448832297382707 / 17592186044416) = Number (2448832297382707 / 17592186044416)"
  using round_double_eval [where e = 7 and x = "2448832297382707 / 17592186044416"]
  by (simp add: rne_def)

lemma ev_109_c:
  "round_double (8254253692039987 / 17592186044416) = Number (8254253692039987 / 17592186044416)"
  using round_double_eval [where e = 8 and x = "8254253692039987 / 17592186044416"]
  by (simp add: rne_def)

lemma ev_289:
  "round_double (11420847180034867 / 17592186044416) = Number (2855211795008717 / 4398046511104)"
  using round_double_eval [where e = 9 and x = "11420847180034867 / 17592186044416"]
  by (simp add: rne_def)

lemma knob_run_109_289:
  "visualAngle (wheel (setKnobPosition demo_env (Number target_109_2) (demo_state c h))) =
     Some (Number (8254253692039987 / 2 ^ 44))"
  "visualAngle (wheel (setKnobPosition demo_env (Number target_289_2)
     (setKnobPosition demo_env (Number target_109_2) (demo_state c h)))) =
     Some (Number (2855211795008717 / 2 ^ 42))"
  by (simp_all add: setKnobPosition_def normalizeDegrees_def isFinite_def js_rem_def num_sub_def
      round_double_numeral demo_visual demo_knob Let_def target_109_2_def target_289_2_def
      ev_109_a ev_109_b ev_109_c ev_289)

lemma ev_third:
  "round_double (1 / 3) = Number (6004799503160661 / 18014398509481984)"
  using round_double_eval [where e = "- 2" and x = "1 / 3"]
  by (simp add: rne_def)

lemma ev_two_thirds:
  "round_double (2 / 3) = Number (6004799503160661 / 9007199254740992)"
  using round_double_eval [where e = "- 1" and x = "2 / 3"]
  by (simp add: rne_def)

lemma ev_100:
  "round_double (450359962737049575 / 4503599627370496) = Number 100"
  using round_double_eval [where e = 6 and x = "450359962737049575 / 4503599627370496"]
  by (simp add: rne_def)

lemma ev_200:
  "round_double (450359962737049575 / 2251799813685248) = Number 200"
  using round_double_eval [where e = 7 and x = "450359962737049575 / 2251799813685248"]
  by (simp add: rne_def)

lemma angles_demo: "map anchor_angle (computeAnchors demo_env (demo_state ''A'' [])) =
   [Number 330, Number 230, Number 130, Number 30]"
  by (simp add: computeAnchors_def path_demo arc_demo Let_def angleOnArc_def js_rem_def
        DEFAULT_WHEEL_ARC_def num_sub_def Math_max_def Math_min_def round_double_numeral
        ev_third ev_two_thirds ev_100 ev_200)

lemma ev_target_109:
  "round_double (1092 / 10) = Number target_109_2"
  using round_double_eval [where e = 6 and x = "1092 / 10"]
  by (simp add: rne_def target_109_2_def)

lemma ev_target_289:
  "round_double (2892 / 10) = Number target_289_2"
  using round_double_eval [where e = 8 and x = "2892 / 10"]
  by (simp add: rne_def target_289_2_def)

section \<open>Clamping of the decision index\<close>

text \<open>
  C7. For every card and every requested index (any integer, any other finite number,
  NaN or an infinity), \<open>normalizeDecisionIndexForCard\<close> returns 0 unless the card is a
  split card with at least one option; for such a card the result lies between 0 and the
  number of options minus one, it is the floor of a finite index clamped into that range,
  and a non-finite index is replaced by 0 before clamping.
\<close>

theorem normalizeDecisionIndexForCard_clamped:
  "(\<not> isSplitDecisionCard crd \<longrightarrow> normalizeDecisionIndexForCard crd x = 0)
   \<and> (\<forall>c opts. crd = Some (CardValue c) \<and> transitions c = Some (Split opts) \<and> opts \<noteq> [] \<longrightarrow>
         isSplitDecisionCard crd
         \<and> 0 \<le> normalizeDecisionIndexForCard crd x
         \<and> normalizeDecisionIndexForCard crd x \<le> int (length opts) - 1
         \<and> normalizeDecisionIndexForCard crd (Number (of_int i)) =
             max 0 (min (int (length opts) - 1) i)
         \<and> normalizeDecisionIndexForCard crd (Number r) =
             max 0 (min (int (length opts) - 1) \<lfloor>r\<rfloor>)
         \<and> (\<not> isFinite x \<longrightarrow> normalizeDecisionIndexForCard crd x = 0))"
proof -
  have a: "\<not> isSplitDecisionCard crd \<longrightarrow> normalizeDecisionIndexForCard crd x = 0"
    by (simp add: normalizeDecisionIndexForCard_not_split)
  have b: "\<forall>c opts. crd = Some (CardValue c) \<and> transitions c = Some (Split opts) \<and> opts \<noteq> [] \<longrightarrow>
         isSplitDecisionCard crd
         \<and> 0 \<le> normalizeDecisionIndexForCard crd x
         \<and> normalizeDecisionIndexForCard crd x \<le> int (length opts) - 1
         \<and> normalizeDecisionIndexForCard crd (Number (of_int i)) =
             max 0 (min (int (length opts) - 1) i)
         \<and> normalizeDecisionIndexForCard crd (Number r) =
             max 0 (min (int (length opts) - 1) \<lfloor>r\<rfloor>)
         \<and> (\<not> isFinite x \<longrightarrow> normalizeDecisionIndexForCard crd x = 0)"
    by (auto simp: normalizeDecisionIndexForCard_def isSplitDecisionCard_def isFinite_def
          Math_floor_def Let_def split: number.splits)
  from a b show ?thesis by (rule conjI)
qed

theorem normalizeDecisionIndexForCard_clamped_witness:
  "normalizeDecisionIndexForCard
     (Some (CardValue \<lparr>card_id = ''D'', card_type = ''decision'',
            wheel_config = \<lparr>position_degrees = None, phase = None\<rparr>,
            transitions = Some (Split [\<lparr>label = ''YES'', target_id = ''E''\<rparr>,
                                       \<lparr>label = ''NO'', target_id = ''F''\<rparr>]),
            status = None\<rparr>)) (Number 7) = 1
   \<and> normalizeDecisionIndexForCard
     (Some (CardValue \<lparr>card_id = ''D'', card_type = ''decision'',
            wheel_config = \<lparr>position_degrees = None, phase = None\<rparr>,
            transitions = Some (Split [\<lparr>label = ''YES'', target_id = ''E''\<rparr>,
                                       \<lparr>label = ''NO'', target_id = ''F''\<rparr>]),
            status = None\<rparr>)) NaN = 0
   \<and> normalizeDecisionIndexForCard
     (Some (CardValue \<lparr>card_id = ''A'', card_type = ''standard'',
            wheel_config = \<lparr>position_degrees = None, phase = None\<rparr>,
            transitions = Some (Linear ''B''),
            status = None\<rparr>)) (Number 7) = 0
   \<and> normalizeDecisionIndexForCard (Some InheritedValue) (Number 7) = 0"
  using normalizeDecisionIndexForCard_clamped
    [of "Some (CardValue \<lparr>card_id = ''D'', card_type = ''decision'',
            wheel_config = \<lparr>position_degrees = None, phase = None\<rparr>,
            transitions = Some (Split [\<lparr>label = ''YES'', target_id = ''E''\<rparr>,
                                       \<lparr>label = ''NO'', target_id = ''F''\<rparr>]),
            status = None\<rparr>)" NaN 7 7]
    normalizeDecisionIndexForCard_clamped
    [of "Some (CardValue \<lparr>card_id = ''A'', card_type = ''standard'',
            wheel_config = \<lparr>position_degrees = None, phase = None\<rparr>,
            transitions = Some (Linear ''B''),
            status = None\<rparr>)" "Number 7" 0 0]
    normalizeDecisionIndexForCard_clamped [of "Some InheritedValue" "Number 7" 0 0]
  by (simp add: isSplitDecisionCard_def isFinite_def)

section \<open>The decision guard and failed advances\<close>

text \<open>
  C1. On a split-decision card, \<open>advance\<close> called with source \<open>ui\<close> (given or by
  default) and without \<open>splitConfirmed\<close> returns false and hands back the state as it was,
  so \<open>currentId\<close>, \<open>decisionRecords\<close> and \<open>decisionTrail\<close> are not touched.
\<close>

theorem advance_split_guard:
  assumes "isSplitDecisionCard (DECK env (propertyKey (currentId s)))"
    and "source options = Some ''ui'' \<or> source options = None"
    and "splitConfirmed options \<noteq> Some True"
  shows "advance env options s = (False, s)"
proof (cases rule: advance_cases [of env options s])
  case stay
  then show ?thesis .
next
  case (resolved crd src confirmed nextId s')
  from assms(2) resolved(5) have "src = ''ui''" by auto
  with assms(3) resolved(6) have "\<not> confirmed" by simp
  moreover from isSplitDecisionCard_split [OF assms(1)] resolved(1) obtain opts where
    "transitions crd = Some (Split opts)"
    by auto
  ultimately have "advance_resolve env src confirmed crd s = None"
    by (simp add: advance_resolve_def)
  with resolved(3) show ?thesis by simp
qed

theorem advance_split_guard_witness:
  "isSplitDecisionCard (DECK demo_env (propertyKey (currentId (demo_state ''D'' [''A'', ''B'']))))
   \<and> fst (advance demo_env \<lparr>source = Some ''ui'', splitConfirmed = None\<rparr>
            (demo_state ''D'' [''A'', ''B''])) = False
   \<and> currentId (snd (advance demo_env \<lparr>source = Some ''ui'', splitConfirmed = None\<rparr>
            (demo_state ''D'' [''A'', ''B'']))) = Some ''D''
   \<and> decisionRecords (snd (advance demo_env \<lparr>source = Some ''ui'', splitConfirmed = None\<rparr>
            (demo_state ''D'' [''A'', ''B'']))) = Map.empty
   \<and> decisionTrail (snd (advance demo_env \<lparr>source = Some ''ui'', splitConfirmed = None\<rparr>
            (demo_state ''D'' [''A'', ''B'']))) = []"
proof -
  have split: "isSplitDecisionCard
      (DECK demo_env (propertyKey (currentId (demo_state ''D'' [''A'', ''B'']))))"
    by (simp add: demo_state_fields DECK_demo isSplitDecisionCard_def mk_card_def)
  from advance_split_guard [OF split, of "\<lparr>source = Some ''ui'', splitConfirmed = None\<rparr>"]
  have "advance demo_env \<lparr>source = Some ''ui'', splitConfirmed = None\<rparr>
          (demo_state ''D'' [''A'', ''B'']) = (False, demo_state ''D'' [''A'', ''B''])"
    by simp
  with split show ?thesis
    by (simp add: demo_state_fields)
qed

text \<open>
  C2. Traversal errors should leave the navigation state alone whenever \<open>advance\<close>
  returns false. On the decision card \<open>G\<close>, whose only option names the card \<open>Z\<close> that
  the deck does not hold, a confirmed \<open>advance\<close> returns false and yet has written the
  choice into \<open>decisionRecords\<close> and appended an entry to \<open>decisionTrail\<close>: the split
  branch records the decision before the target is looked up in the deck.
\<close>

theorem advance_false_after_recording:
  "fst (advance demo_env \<lparr>source = Some ''automation'', splitConfirmed = Some True\<rparr>
          (demo_state ''G'' [])) = False
   \<and> decisionRecords (demo_state ''G'' []) ''G'' = None
   \<and> decisionRecords (snd (advance demo_env
          \<lparr>source = Some ''automation'', splitConfirmed = Some True\<rparr>
          (demo_state ''G'' []))) ''G'' = Some 0
   \<and> decisionTrail (demo_state ''G'' []) = []
   \<and> map trail_card_id (decisionTrail (snd (advance demo_env
          \<lparr>source = Some ''automation'', splitConfirmed = Some True\<rparr>
          (demo_state ''G'' [])))) = [''G'']
   \<and> map trail_target_id (decisionTrail (snd (advance demo_env
          \<lparr>source = Some ''automation'', splitConfirmed = Some True\<rparr>
          (demo_state ''G'' [])))) = [Some ''Z'']"
  by (simp add: advance_def advance_resolve_def advance_commit_def DECK_demo demo_state_def
      mk_card_def normalizeDecisionIndexForCard_def isFinite_def Math_floor_def Let_def)

section \<open>The timer under navigation\<close>




section \<open>Self loops\<close>



section \<open>Selecting a decision option through the automation API\<close>



section \<open>Advance followed by rewind\<close>

text \<open>
  C6 (as amended). Let the current card \<open>A\<close> have status other than \<open>complete\<close> and a
  linear transition to a card \<open>B\<close> of the deck, \<open>B\<close> different from \<open>A\<close> and its id not
  empty, in a state whose \<open>decisionIndex\<close> is normalised for the current card (which
  \<open>applyAlgorithm\<close> establishes and \<open>advance\<close>, \<open>rewind\<close>, \<open>gotoCard\<close>, \<open>reset\<close> and
  \<open>selectDecisionOption\<close> keep). Then \<open>advance\<close> moves to \<open>B\<close> and pushes \<open>A\<close>, and the
  \<open>rewind\<close> that follows returns to \<open>A\<close> with \<open>decisionIndex\<close>, \<open>checklistState\<close> and
  \<open>history\<close> as they were before advancing.
\<close>

theorem advance_rewind_inverse:
  assumes "DECK env (propertyKey (currentId s)) = Some (CardValue a)"
    and "transitions a = Some (Linear b)"
    and "status a \<noteq> Some ''complete''"
    and "Some b \<noteq> currentId s"
    and "b \<noteq> []"
    and "DECK env b = Some (CardValue nc)"
    and "decisionIndex_normalised env s"
  shows "fst (advance env options s)
    \<and> currentId (snd (advance env options s)) = Some b
    \<and> history (snd (advance env options s)) = history s @ [currentId s]
    \<and> fst (rewind env (snd (advance env options s)))
    \<and> currentId (snd (rewind env (snd (advance env options s)))) = currentId s
    \<and> decisionIndex (snd (rewind env (snd (advance env options s)))) = decisionIndex s
    \<and> checklistState (snd (rewind env (snd (advance env options s)))) = checklistState s
    \<and> history (snd (rewind env (snd (advance env options s)))) = history s"
proof -
  have notsplit: "\<not> isSplitDecisionCard (Some (CardValue a))"
    using assms(2) by (simp add: isSplitDecisionCard_def)
  from assms(7) assms(1) notsplit have idx: "decisionIndex s = 0"
    by (simp add: decisionIndex_normalised_def normalizeDecisionIndexForCard_not_split)
  have adv: "advance env options s = advance_commit env (Some b) s"
    using assms(1,2,3) by (simp add: advance_def advance_resolve_def Let_def)
  define s1 where "s1 = snd (advance env options s)"
  from advance_commit_moved [OF assms(5) assms(6), of s] adv assms(4)
  have s1: "fst (advance env options s)" "currentId s1 = Some b"
    "history s1 = history s @ [currentId s]" "checklistState s1 = checklistState s"
    by (simp_all add: s1_def)
  from s1(3) have ne: "history s1 \<noteq> []" by simp
  from rewind_moved [OF ne, of env] s1(3) assms(1) notsplit
  have rw: "fst (rewind env s1)" "currentId (snd (rewind env s1)) = currentId s"
    "decisionIndex (snd (rewind env s1)) = 0"
    "checklistState (snd (rewind env s1)) = checklistState s1"
    "history (snd (rewind env s1)) = history s"
    by simp_all
  from s1 rw idx show ?thesis
    unfolding s1_def by simp
qed

theorem advance_rewind_inverse_witness:
  "decisionIndex_normalised demo_env (demo_state ''A'' [])
   \<and> fst (advance demo_env \<lparr>source = None, splitConfirmed = None\<rparr> (demo_state ''A'' []))
   \<and> currentId (snd (advance demo_env \<lparr>source = None, splitConfirmed = None\<rparr>
        (demo_state ''A'' []))) = Some ''B''
   \<and> currentId (snd (rewind demo_env (snd (advance demo_env
        \<lparr>source = None, splitConfirmed = None\<rparr> (demo_state ''A'' []))))) = Some ''A''
   \<and> decisionIndex (snd (rewind demo_env (snd (advance demo_env
        \<lparr>source = None, splitConfirmed = None\<rparr> (demo_state ''A'' []))))) = 0
   \<and> history (snd (rewind demo_env (snd (advance demo_env
        \<lparr>source = None, splitConfirmed = None\<rparr> (demo_state ''A'' []))))) = []"
proof -
  have inv: "decisionIndex_normalised demo_env (demo_state ''A'' [])"
    by (simp add: decisionIndex_normalised_def demo_state_fields DECK_demo mk_card_def
        normalizeDecisionIndexForCard_def)
  from advance_rewind_inverse [of demo_env "demo_state ''A'' []"
      "mk_card ''A'' ''cover'' (Some (Linear ''B'')) None" "''B''"
      "mk_card ''B'' ''standard'' (Some (Linear ''D'')) None"
      "\<lparr>source = None, splitConfirmed = None\<rparr>"] inv
  show ?thesis
    by (simp add: DECK_demo demo_state_fields mk_card_def)
qed

text \<open>
  C6 as stated fails when \<open>A\<close> is complete: the card \<open>H\<close> has a linear transition to
  \<open>B\<close> and status \<open>complete\<close>, so \<open>advance\<close> returns false without moving, and the
  \<open>rewind\<close> that follows leaves \<open>H\<close> for the previous card \<open>I\<close> and empties the history.
\<close>

theorem advance_rewind_completed_card:
  "DECK demo_env ''H'' =
     Some (CardValue (mk_card ''H'' ''terminal'' (Some (Linear ''B'')) (Some ''complete'')))
   \<and> DECK demo_env ''B'' \<noteq> None
   \<and> \<not> isSplitDecisionCard (DECK demo_env ''H'')
   \<and> currentId (demo_state ''H'' [''I'']) = Some ''H''
   \<and> fst (advance demo_env \<lparr>source = None, splitConfirmed = None\<rparr> (demo_state ''H'' [''I'']))
       = False
   \<and> currentId (snd (rewind demo_env (snd (advance demo_env
        \<lparr>source = None, splitConfirmed = None\<rparr> (demo_state ''H'' [''I'']))))) = Some ''I''
   \<and> history (demo_state ''H'' [''I'']) = [Some ''I'']
   \<and> history (snd (rewind demo_env (snd (advance demo_env
        \<lparr>source = None, splitConfirmed = None\<rparr> (demo_state ''H'' [''I'']))))) = []"
proof -
  have "advance demo_env \<lparr>source = None, splitConfirmed = None\<rparr> (demo_state ''H'' [''I''])
          = (False, demo_state ''H'' [''I''])"
    by (simp add: advance_def DECK_demo demo_state_fields mk_card_def Let_def)
  then show ?thesis
    using rewind_moved(2,3) [of "demo_state ''H'' [''I'']" demo_env]
    by (simp add: DECK_demo demo_state_fields mk_card_def isSplitDecisionCard_def)
qed

section \<open>Continuity of the visual angle\<close>

text \<open>
  C5 (as amended). \<open>setKnobPosition\<close> computes in double arithmetic. With the knob
  present and a finite last visual angle \<open>v\<close>, the principal value \<open>l\<close> it computes for
  \<open>v\<close> lies in [0, 360] (360 itself can occur, by rounding) and is within \<open>2 powi (- 45)\<close>
  of a value congruent to \<open>v\<close> modulo 360; the delta \<open>d\<close> that the call adds has
  \<open>\<bar>d\<bar> \<le> 180\<close> and is within \<open>2 powi (- 44)\<close> of \<open>t - l\<close>, \<open>t - l - 360\<close> or
  \<open>t - l + 360\<close>, where \<open>t\<close> is the principal value of the target (the target itself when
  it lies in [0, 360)); the new visual angle is the double nearest to \<open>v + d\<close>. Two
  consecutive finite values \<open>a\<close>, \<open>b\<close> of \<open>visualAngle\<close> along any run of calls therefore
  satisfy \<open>\<bar>b - a\<bar> \<le> 180 + (\<bar>a\<bar> + 181) / 2 ^ 53\<close>: 180 degrees and the rounding error of
  one addition. A visual angle that is NaN or an infinity stays as it is, and without the
  knob element the call changes nothing.
\<close>

theorem setKnobPosition_continuity:
  "(\<forall>i < length degs. \<forall>a b.
       visualAngle (wheel ((s # setKnobPositions env degs s) ! i)) = Some (Number a)
       \<and> visualAngle (wheel ((s # setKnobPositions env degs s) ! Suc i)) = Some (Number b)
       \<longrightarrow> \<bar>b - a\<bar> \<le> 180 + (\<bar>a\<bar> + 181) / 2 ^ 53)
   \<and> (dom_knob env \<and> visualAngle (wheel s) = Some (Number v) \<longrightarrow>
        (\<exists>t l d. normalizeDegrees deg = Number t \<and> normalizeDegrees (Number v) = Number l
           \<and> 0 \<le> l \<and> l \<le> 360
           \<and> (\<exists>k::int. \<bar>l - (v + 360 * of_int k)\<bar> \<le> 2 powi (- 45))
           \<and> \<bar>d\<bar> \<le> 180
           \<and> (\<exists>k \<in> {- 1, 0, 1 :: int}. \<bar>d - (t - l + 360 * of_int k)\<bar> \<le> 2 powi (- 44))
           \<and> visualAngle (wheel (setKnobPosition env deg s)) = Some (round_double (v + d))))
   \<and> (0 \<le> r \<and> r < 360 \<longrightarrow> normalizeDegrees (Number r) = Number r)
   \<and> (dom_knob env \<and> visualAngle (wheel s) = Some w \<and> \<not> isFinite w \<longrightarrow>
        visualAngle (wheel (setKnobPosition env deg s)) = Some w)
   \<and> (\<not> dom_knob env \<longrightarrow> setKnobPosition env deg s = s)"
proof -
  have seq: "\<forall>i < length degs. \<forall>a b.
       visualAngle (wheel ((s # setKnobPositions env degs s) ! i)) = Some (Number a)
       \<and> visualAngle (wheel ((s # setKnobPositions env degs s) ! Suc i)) = Some (Number b)
       \<longrightarrow> \<bar>b - a\<bar> \<le> 180 + (\<bar>a\<bar> + 181) / 2 ^ 53"
    using setKnobPositions_bound [of _ degs s env] by blast
  have step: "dom_knob env \<and> visualAngle (wheel s) = Some (Number v) \<longrightarrow>
        (\<exists>t l d. normalizeDegrees deg = Number t \<and> normalizeDegrees (Number v) = Number l
           \<and> 0 \<le> l \<and> l \<le> 360
           \<and> (\<exists>k::int. \<bar>l - (v + 360 * of_int k)\<bar> \<le> 2 powi (- 45))
           \<and> \<bar>d\<bar> \<le> 180
           \<and> (\<exists>k \<in> {- 1, 0, 1 :: int}. \<bar>d - (t - l + 360 * of_int k)\<bar> \<le> 2 powi (- 44))
           \<and> visualAngle (wheel (setKnobPosition env deg s)) = Some (round_double (v + d)))"
    using setKnobPosition_step [of env s v deg] by blast
  have princ: "0 \<le> r \<and> r < 360 \<longrightarrow> normalizeDegrees (Number r) = Number r"
    by (simp add: normalizeDegrees_id)
  have inf: "dom_knob env \<and> visualAngle (wheel s) = Some w \<and> \<not> isFinite w \<longrightarrow>
        visualAngle (wheel (setKnobPosition env deg s)) = Some w"
    using setKnobPosition_not_finite [of env s w deg] by blast
  have off: "\<not> dom_knob env \<longrightarrow> setKnobPosition env deg s = s"
    by (simp add: setKnobPosition_def)
  from seq step princ inf off show ?thesis by (intro conjI)
qed

theorem setKnobPosition_continuity_witness:
  "map (\<lambda>x. visualAngle (wheel x))
       (demo_state ''A'' [] #
          setKnobPositions demo_env [Number 10, Number 200, Number 350] (demo_state ''A'' []))
     = [Some (Number 330), Some (Number 370), Some (Number 200), Some (Number 350)]
   \<and> \<bar>370 - 330\<bar> \<le> 180 + (\<bar>330\<bar> + 181) / (2::real) ^ 53
   \<and> \<bar>200 - 370\<bar> \<le> 180 + (\<bar>370\<bar> + 181) / (2::real) ^ 53
   \<and> \<bar>350 - 200\<bar> \<le> 180 + (\<bar>200\<bar> + 181) / (2::real) ^ 53
   \<and> normalizeDegrees (Number 10) = Number 10
   \<and> (\<exists>d. \<bar>d\<bar> \<le> 180
         \<and> visualAngle (wheel (setKnobPosition demo_env (Number 10) (demo_state ''A'' []))) =
             Some (round_double (330 + d)))
   \<and> visualAngle (wheel (setKnobPosition demo_env (Number 10)
         ((demo_state ''A'' [])\<lparr>wheel := (wheel (demo_state ''A'' []))\<lparr>visualAngle := Some NaN\<rparr>\<rparr>)))
       = Some NaN
   \<and> setKnobPosition (demo_env\<lparr>dom_knob := False\<rparr>) (Number 10) (demo_state ''A'' []) =
       demo_state ''A'' []"
proof -
  note T = setKnobPosition_continuity
    [of "[Number 10, Number 200, Number 350]" "demo_state ''A'' []" demo_env 330 "Number 10" 10 NaN]
  have run: "map (\<lambda>x. visualAngle (wheel x))
       (demo_state ''A'' [] #
          setKnobPositions demo_env [Number 10, Number 200, Number 350] (demo_state ''A'' []))
     = [Some (Number 330), Some (Number 370), Some (Number 200), Some (Number 350)]"
    by (rule knob_run_integers)
  from T [THEN conjunct2, THEN conjunct1] demo_knob demo_visual [of "''A''" "[]"]
  have step: "\<exists>d. \<bar>d\<bar> \<le> 180
         \<and> visualAngle (wheel (setKnobPosition demo_env (Number 10) (demo_state ''A'' []))) =
             Some (round_double (330 + d))"
    by blast
  from T [THEN conjunct2, THEN conjunct2, THEN conjunct1]
  have princ: "normalizeDegrees (Number 10) = Number 10" by simp
  from setKnobPosition_continuity
    [of "[]" "(demo_state ''A'' [])\<lparr>wheel := (wheel (demo_state ''A'' []))\<lparr>visualAngle := Some NaN\<rparr>\<rparr>"
      demo_env 0 "Number 10" 0 NaN,
     THEN conjunct2, THEN conjunct2, THEN conjunct2, THEN conjunct1] demo_knob
  have nan: "visualAngle (wheel (setKnobPosition demo_env (Number 10)
         ((demo_state ''A'' [])\<lparr>wheel := (wheel (demo_state ''A'' []))\<lparr>visualAngle := Some NaN\<rparr>\<rparr>)))
       = Some NaN"
    by (simp add: isFinite_def)
  from setKnobPosition_continuity
    [of "[]" "demo_state ''A'' []" "demo_env\<lparr>dom_knob := False\<rparr>" 0 "Number 10" 0 NaN,
     THEN conjunct2, THEN conjunct2, THEN conjunct2, THEN conjunct2]
  have off: "setKnobPosition (demo_env\<lparr>dom_knob := False\<rparr>) (Number 10) (demo_state ''A'' []) =
       demo_state ''A'' []"
    by simp
  from run step princ nan off show ?thesis by simp
qed

text \<open>
  C5 as stated fails: the rounded sum can move by more than 180 degrees. From the visual
  angle 330 that \<open>applyAlgorithm\<close> sets, the targets 109.2 and 289.2 (the doubles nearest to
  them, both in [0, 360)) lead to a visual angle near 469.2 and then to one near 649.2. The
  second call computes a delta of exactly 180, and the sum, which needs one bit more than a
  double holds, is rounded upwards: the step is \<open>180 + 1 / 2 ^ 44\<close>.
\<close>

theorem setKnobPosition_step_exceeds_180:
  "round_double (1092 / 10) = Number target_109_2
   \<and> round_double (2892 / 10) = Number target_289_2
   \<and> 0 \<le> target_109_2 \<and> target_109_2 < 360 \<and> 0 \<le> target_289_2 \<and> target_289_2 < 360
   \<and> visualAngle (wheel (demo_state ''A'' [])) = Some (Number 330)
   \<and> visualAngle (wheel (setKnobPosition demo_env (Number target_109_2) (demo_state ''A'' []))) =
       Some (Number (8254253692039987 / 2 ^ 44))
   \<and> visualAngle (wheel (setKnobPosition demo_env (Number target_289_2)
         (setKnobPosition demo_env (Number target_109_2) (demo_state ''A'' [])))) =
       Some (Number (2855211795008717 / 2 ^ 42))
   \<and> 2855211795008717 / 2 ^ 42 - 8254253692039987 / 2 ^ 44 = 180 + 1 / (2::real) ^ 44
   \<and> \<bar>2855211795008717 / 2 ^ 42 - 8254253692039987 / 2 ^ 44\<bar> > (180::real)"
proof -
  have range: "0 \<le> target_109_2" "target_109_2 < 360" "0 \<le> target_289_2" "target_289_2 < 360"
    by (simp_all add: target_109_2_def target_289_2_def)
  have step: "2855211795008717 / 2 ^ 42 - 8254253692039987 / 2 ^ 44 = 180 + 1 / (2::real) ^ 44"
    "\<bar>2855211795008717 / 2 ^ 42 - 8254253692039987 / 2 ^ 44\<bar> > (180::real)"
    by simp_all
  from ev_target_109 ev_target_289 range demo_visual [of "''A''" "[]"]
    knob_run_109_289 [of "''A''" "[]"] step
  show ?thesis by (intro conjI)
qed

section \<open>Anchors of the forward path\<close>

text \<open>
  C3. In every state the anchor list has one entry per card of the forward path: the ids
  of the anchors are the path itself, in the same order and without repetition. The anchor
  of card \<open>i\<close> of \<open>n\<close> sits at \<open>angleOnArc arc (i / (n - 1))\<close>, and the anchor of a
  single-card path at \<open>start_degrees arc\<close>, where \<open>arc\<close> is the current wheel arc.
\<close>

theorem computeAnchors_follow_path:
  "length (computeAnchors env s) = length (computeForwardPath env s)
   \<and> map anchor_id (computeAnchors env s) = computeForwardPath env s
   \<and> distinct (map anchor_id (computeAnchors env s))
   \<and> (\<forall>i < length (computeForwardPath env s).
        anchor_id (computeAnchors env s ! i) = computeForwardPath env s ! i
        \<and> anchor_angle (computeAnchors env s ! i) =
            (if length (computeForwardPath env s) = 1
             then start_degrees (getCurrentWheelArc env)
             else angleOnArc (getCurrentWheelArc env)
                    (num_div (Number (real i))
                       (num_sub (Number (real (length (computeForwardPath env s))))
                          (Number 1)))))"
proof -
  let ?path = "computeForwardPath env s"
  let ?arc = "getCurrentWheelArc env"
  have d: "distinct ?path"
    by (simp add: computeForwardPath_def computeForwardPath_loop_distinct)
  have ids: "map anchor_id (computeAnchors env s) = ?path"
  proof (cases "length ?path = 1")
    case True
    then obtain x where "?path = [x]" by (cases ?path) auto
    then show ?thesis by (simp add: computeAnchors_def Let_def)
  next
    case False
    then show ?thesis by (simp add: computeAnchors_def Let_def mapAnchors_ids)
  qed
  then have len: "length (computeAnchors env s) = length ?path"
    by (metis length_map)
  have ang: "\<forall>i < length ?path.
        anchor_id (computeAnchors env s ! i) = ?path ! i
        \<and> anchor_angle (computeAnchors env s ! i) =
            (if length ?path = 1 then start_degrees ?arc
             else angleOnArc ?arc
                    (num_div (Number (real i)) (num_sub (Number (real (length ?path))) (Number 1))))"
  proof (intro allI impI conjI)
    fix i assume i: "i < length ?path"
    with ids len show "anchor_id (computeAnchors env s ! i) = ?path ! i"
      by (metis nth_map)
    show "anchor_angle (computeAnchors env s ! i) =
            (if length ?path = 1 then start_degrees ?arc
             else angleOnArc ?arc
                    (num_div (Number (real i)) (num_sub (Number (real (length ?path))) (Number 1))))"
    proof (cases "length ?path = 1")
      case True
      then obtain x where "?path = [x]" by (cases ?path) auto
      with i show ?thesis by (simp add: computeAnchors_def Let_def)
    next
      case False
      from i have "?path \<noteq> []" by auto
      with False i mapAnchors_nth [of i ?path ?arc "length ?path" 0] show ?thesis
        by (simp add: computeAnchors_def Let_def)
    qed
  qed
  from d ids len ang show ?thesis by simp
qed

theorem computeAnchors_follow_path_witness:
  "computeForwardPath demo_env (demo_state ''A'' []) = [''A'', ''B'', ''D'', ''E'']
   \<and> map anchor_id (computeAnchors demo_env (demo_state ''A'' [])) = [''A'', ''B'', ''D'', ''E'']
   \<and> map anchor_angle (computeAnchors demo_env (demo_state ''A'' [])) =
       [Number 330, Number 230, Number 130, Number 30]
   \<and> angleOnArc (getCurrentWheelArc demo_env)
       (num_div (Number (real 1)) (num_sub (Number (real 4)) (Number 1))) = Number 230"
proof -
  have a1: "angleOnArc (getCurrentWheelArc demo_env)
       (num_div (Number (real 1)) (num_sub (Number (real 4)) (Number 1))) = Number 230"
    by (simp add: arc_demo Let_def angleOnArc_def js_rem_def DEFAULT_WHEEL_ARC_def num_sub_def
        Math_max_def Math_min_def round_double_numeral ev_third ev_100)
  from computeAnchors_follow_path [of demo_env "demo_state ''A'' []"] path_demo angles_demo a1
  show ?thesis by simp
qed

section \<open>The longest remaining branch\<close>




end
